theory Spec2Isabelle
  imports Complex_Main "HOL-Library.AList"
begin

section \<open>JavaScript values\<close>

text \<open>
  The facilitator is TypeScript. The values its helpers inspect at run time are
  modelled by a datatype: \<open>number\<close> is a JavaScript number (a finite value,
  carried as the rational it denotes, or one of the three non-finite values),
  \<open>bigint\<close> is \<open>int\<close>, a string is a list of code units (the model covers
  code units below 256), a plain object is the list of its own properties.
  The values are those a JSON body can hold, and the primitives beside them: no
  value is a function. Every raise of the source is a value of \<open>error\<close>.
\<close>

datatype number = Finite rat | PosInfinity | NegInfinity | NaN

datatype jsval =
    JUndefined
  | JNull
  | JBool bool
  | JNumber number
  | JBigInt int
  | JString string
  | JArray "jsval list"
  | JObject "(string \<times> jsval) list"

datatype error = RangeError | SyntaxError | TypeError | Error string

subsection \<open>Limits of the engine\<close>

text \<open>
  ECMAScript puts no bound on a bigint and the bound \<open>2^53 - 1\<close> on the length of a
  string; an engine has bounds of its own, and raises a RangeError instead of
  making a longer bigint or string. The bounds are a parameter: the greatest
  number of bits of a bigint and the greatest length of a string. \<open>node_engine\<close>
  has the bounds of V8 on a 64-bit platform, the engine of Node: \<open>2^30\<close> bits and
  \<open>2^29 - 24\<close> code units. The bounds are tested in \<open>formatAtomicAmount\<close>, where
  the size of a result is set by the number \<open>decimals\<close> and not by the size of the
  request.
\<close>

record engine =
  max_bigint_bits :: nat
  max_string_length :: nat

definition node_engine :: engine where
  "node_engine = \<lparr>max_bigint_bits = 1073741824, max_string_length = 536870888\<rparr>"

definition bigint_fits :: "engine \<Rightarrow> int \<Rightarrow> bool" where
  "bigint_fits E i = (\<bar>i\<bar> < 2 ^ max_bigint_bits E)"

definition string_limit :: "engine \<Rightarrow> nat" where
  "string_limit E = min (max_string_length E) (2 ^ 53 - 1)"

text \<open>A string the code has just built: it exists when it is within the limit.\<close>

definition new_string :: "engine \<Rightarrow> string \<Rightarrow> error + string" where
  "new_string E s = (if length s \<le> string_limit E then Inr s else Inl RangeError)"

subsection \<open>Numbers\<close>

text \<open>\<open>a <= b\<close> on numbers: false as soon as one side is NaN.\<close>

fun number_le :: "number \<Rightarrow> number \<Rightarrow> bool" where
  "number_le NaN _ = False"
| "number_le _ NaN = False"
| "number_le NegInfinity _ = True"
| "number_le _ PosInfinity = True"
| "number_le (Finite a) (Finite b) = (a \<le> b)"
| "number_le PosInfinity _ = False"
| "number_le _ NegInfinity = False"

fun Number_isFinite :: "number \<Rightarrow> bool" where
  "Number_isFinite (Finite q) = True"
| "Number_isFinite _ = False"

text \<open>\<open>Math.trunc\<close>: the integer part, rounding toward zero.\<close>

definition trunc_rat :: "rat \<Rightarrow> int" where
  "trunc_rat q = (if 0 \<le> q then \<lfloor>q\<rfloor> else \<lceil>q\<rceil>)"

fun Math_trunc :: "number \<Rightarrow> number" where
  "Math_trunc (Finite q) = Finite (of_int (trunc_rat q))"
| "Math_trunc n = n"

text \<open>\<open>BigInt(n)\<close> for a number: a RangeError unless the number is an integer.\<close>

fun NumberToBigInt :: "number \<Rightarrow> error + int" where
  "NumberToBigInt (Finite q) = (if of_int \<lfloor>q\<rfloor> = q then Inr \<lfloor>q\<rfloor> else Inl RangeError)"
| "NumberToBigInt _ = Inl RangeError"

text \<open>\<open>ToLength\<close>, which a number passes through where a built-in takes a length.\<close>

fun ToLength :: "number \<Rightarrow> nat" where
  "ToLength (Finite q) = (if q \<le> 0 then 0 else min (nat \<lfloor>q\<rfloor>) (2 ^ 53 - 1))"
| "ToLength PosInfinity = 2 ^ 53 - 1"
| "ToLength _ = 0"

subsection \<open>Decimal digits of a bigint\<close>

definition digit_char :: "nat \<Rightarrow> char" where
  "digit_char n = ''0123456789'' ! n"

function nat_digits :: "nat \<Rightarrow> string" where
  "nat_digits n = (if n < 10 then [digit_char n] else nat_digits (n div 10) @ [digit_char (n mod 10)])"
  by pat_completeness auto
termination
  by (relation "measure id") auto

declare nat_digits.simps [simp del]

text \<open>\<open>BigInt.prototype.toString()\<close>, radix 10.\<close>

definition BigInt_toString :: "int \<Rightarrow> string" where
  "BigInt_toString i = (if i < 0 then CHR ''-'' # nat_digits (nat (- i)) else nat_digits (nat i))"

subsection \<open>Strings\<close>

text \<open>
  \<open>Number.prototype.toString\<close> prints the shortest digits that read back as the
  same double; that algorithm is not part of this repository, so the rendering of the
  finite numbers is a parameter \<open>fin\<close> of every function that stringifies a number.
  \<open>decimal_rendering\<close> is what it yields on the integers below \<open>10^21\<close>, the only
  finite numbers the concrete runs below stringify.
\<close>

fun Number_toString :: "(rat \<Rightarrow> string) \<Rightarrow> number \<Rightarrow> string" where
  "Number_toString fin (Finite q) = fin q"
| "Number_toString fin PosInfinity = ''Infinity''"
| "Number_toString fin NegInfinity = ''-Infinity''"
| "Number_toString fin NaN = ''NaN''"

definition decimal_rendering :: "rat \<Rightarrow> string" where
  "decimal_rendering q = BigInt_toString \<lfloor>q\<rfloor>"

text \<open>\<open>parts.join(sep)\<close> on strings.\<close>

fun join :: "string \<Rightarrow> string list \<Rightarrow> string" where
  "join sep [] = []"
| "join sep [s] = s"
| "join sep (s # t # ss) = s @ sep @ join sep (t # ss)"

text \<open>The results of the steps of a loop, up to the first step that raises.\<close>

fun collect :: "(error + 'a) list \<Rightarrow> error + 'a list" where
  "collect [] = Inr []"
| "collect (Inl e # rs) = Inl e"
| "collect (Inr x # rs) = map_sum id ((#) x) (collect rs)"

text \<open>
  \<open>String(v)\<close>, and with it the conversion of a template literal and of
  \<open>'' + v\<close>. An array joins its elements with commas, null and undefined elements
  printing as nothing, and raises where an element does. A plain object is printed
  by the \<open>toString\<close> it has: the inherited one gives \<open>[object Object]\<close>; an own
  property of that name is no function, the inherited \<open>valueOf\<close> gives back the
  object, and the conversion raises a TypeError.
\<close>

fun js_String :: "(rat \<Rightarrow> string) \<Rightarrow> jsval \<Rightarrow> error + string" where
  "js_String fin JUndefined = Inr ''undefined''"
| "js_String fin JNull = Inr ''null''"
| "js_String fin (JBool b) = Inr (if b then ''true'' else ''false'')"
| "js_String fin (JNumber n) = Inr (Number_toString fin n)"
| "js_String fin (JBigInt i) = Inr (BigInt_toString i)"
| "js_String fin (JString s) = Inr s"
| "js_String fin (JArray xs) =
     map_sum id (join '','')
       (collect (map (\<lambda>x. if x = JNull \<or> x = JUndefined then Inr [] else js_String fin x) xs))"
| "js_String fin (JObject kvs) =
     (if map_of kvs ''toString'' \<noteq> None then Inl TypeError else Inr ''[object Object]'')"

text \<open>
  A primitive value is no array and no plain object: \<open>String\<close> returns on it. A
  text or a missing value is a string, null or undefined.
\<close>

fun primitive :: "jsval \<Rightarrow> bool" where
  "primitive (JArray xs) = False"
| "primitive (JObject kvs) = False"
| "primitive v = True"



text \<open>
  White space and line terminators among the code units below 256: tab, line feed,
  vertical tab, form feed, carriage return, space and no-break space.
\<close>

definition is_whitespace :: "char \<Rightarrow> bool" where
  "is_whitespace c = (of_char c \<in> {9, 10, 11, 12, 13, 32, 160 :: nat})"

definition trim :: "string \<Rightarrow> string" where
  "trim s = rev (dropWhile is_whitespace (rev (dropWhile is_whitespace s)))"

text \<open>
  \<open>s.padStart(n, "0")\<close> with a one-character filler: the string itself when it has
  the length, else a new string.
\<close>

definition padStart :: "engine \<Rightarrow> string \<Rightarrow> nat \<Rightarrow> char \<Rightarrow> error + string" where
  "padStart E s n c =
     (if n \<le> length s then Inr s else new_string E (replicate (n - length s) c @ s))"


text \<open>\<open>s.replace(/0+$/, "")\<close>: the trailing zeros removed.\<close>

definition strip_trailing_zeros :: "string \<Rightarrow> string" where
  "strip_trailing_zeros s = rev (dropWhile (\<lambda>c. c = CHR ''0'') (rev s))"

subsection \<open>Reading a bigint from a string\<close>

definition digit_of :: "char \<Rightarrow> nat option" where
  "digit_of c = (let n = of_char c :: nat in
     if 48 \<le> n \<and> n \<le> 57 then Some (n - 48)
     else if 97 \<le> n \<and> n \<le> 102 then Some (n - 87)
     else if 65 \<le> n \<and> n \<le> 70 then Some (n - 55)
     else None)"

fun parse_digits :: "nat \<Rightarrow> string \<Rightarrow> nat \<Rightarrow> nat option" where
  "parse_digits b [] acc = Some acc"
| "parse_digits b (c # cs) acc =
     (case digit_of c of
        None \<Rightarrow> None
      | Some v \<Rightarrow> if v < b then parse_digits b cs (acc * b + v) else None)"

definition parse_radix :: "nat \<Rightarrow> string \<Rightarrow> nat option" where
  "parse_radix b cs = (if cs = [] then None else parse_digits b cs 0)"

text \<open>\<open>SignedInteger\<close>: decimal digits after an optional sign.\<close>

definition parse_signed :: "string \<Rightarrow> int option" where
  "parse_signed t =
     (case t of
        [] \<Rightarrow> None
      | c # ds \<Rightarrow>
          if c = CHR ''-'' then map_option (\<lambda>n. - int n) (parse_radix 10 ds)
          else if c = CHR ''+'' then map_option int (parse_radix 10 ds)
          else map_option int (parse_radix 10 t))"

text \<open>
  \<open>StringToBigInt\<close> of ECMAScript: white space around the literal is dropped, the
  empty literal is zero, a literal is a signed decimal integer or an unsigned
  hexadecimal, octal or binary one with its prefix. \<open>None\<close> is no literal.
\<close>

definition StringToBigInt :: "string \<Rightarrow> int option" where
  "StringToBigInt str =
     (let t = trim str in
      if t = [] then Some 0
      else case t of
        c0 # c1 # ds \<Rightarrow>
          if c0 = CHR ''0'' \<and> (c1 = CHR ''x'' \<or> c1 = CHR ''X'') then map_option int (parse_radix 16 ds)
          else if c0 = CHR ''0'' \<and> (c1 = CHR ''o'' \<or> c1 = CHR ''O'') then map_option int (parse_radix 8 ds)
          else if c0 = CHR ''0'' \<and> (c1 = CHR ''b'' \<or> c1 = CHR ''B'') then map_option int (parse_radix 2 ds)
          else parse_signed t
      | _ \<Rightarrow> parse_signed t)"

text \<open>\<open>BigInt(text)\<close> for a string: a SyntaxError when the text is no literal.\<close>

definition BigInt_of_string :: "string \<Rightarrow> error + int" where
  "BigInt_of_string s = (case StringToBigInt s of None \<Rightarrow> Inl SyntaxError | Some i \<Rightarrow> Inr i)"

text \<open>
  Bigint arithmetic: \<open>**\<close>, which raises on a negative exponent and on a power
  beyond the limit of the engine, \<open>/\<close> (truncating) and \<open>%\<close> (sign of the
  dividend), whose results are no longer than their operands.
\<close>

definition BigInt_pow :: "engine \<Rightarrow> int \<Rightarrow> int \<Rightarrow> error + int" where
  "BigInt_pow E b e =
     (if e < 0 then Inl RangeError
      else if bigint_fits E (b ^ nat e) then Inr (b ^ nat e)
      else Inl RangeError)"

definition BigInt_div :: "int \<Rightarrow> int \<Rightarrow> error + int" where
  "BigInt_div a b = (if b = 0 then Inl RangeError else Inr (sgn a * sgn b * (\<bar>a\<bar> div \<bar>b\<bar>)))"

definition BigInt_rem :: "int \<Rightarrow> int \<Rightarrow> error + int" where
  "BigInt_rem a b = (if b = 0 then Inl RangeError else Inr (sgn a * (\<bar>a\<bar> mod \<bar>b\<bar>)))"

section \<open>Amount codec\<close>

text \<open>
  \<open>safeParseAtomic\<close>. The last three statements of its \<open>try\<close> block are
  \<open>parse_text\<close>; the block is \<open>safeParseAtomic_try\<close>, whose result is an error where
  the source raises; the \<open>catch\<close> turns every error into null.
\<close>

definition parse_text :: "(rat \<Rightarrow> string) \<Rightarrow> jsval \<Rightarrow> error + int option" where
  "parse_text fin raw =
     (case js_String fin raw of
        Inl e \<Rightarrow> Inl e
      | Inr s \<Rightarrow>
          let text = trim s in
          if text = [] then Inr None
          else map_sum id Some (BigInt_of_string text))"

definition safeParseAtomic_try :: "(rat \<Rightarrow> string) \<Rightarrow> jsval \<Rightarrow> error + int option" where
  "safeParseAtomic_try fin raw =
     (case raw of
        JBigInt i \<Rightarrow> Inr (Some i)
      | JNumber n \<Rightarrow>
          if Number_isFinite n then map_sum id Some (NumberToBigInt (Math_trunc n))
          else parse_text fin raw
      | _ \<Rightarrow> parse_text fin raw)"

definition safeParseAtomic :: "(rat \<Rightarrow> string) \<Rightarrow> jsval \<Rightarrow> error + int option" where
  "safeParseAtomic fin raw =
     (if raw = JNull \<or> raw = JUndefined then Inr None
      else case safeParseAtomic_try fin raw of
             Inl e \<Rightarrow> Inr None
           | Inr r \<Rightarrow> Inr r)"

text \<open>
  \<open>formatAtomicAmount\<close>, with the errors its operations can raise: the conversion
  of \<open>decimals\<close> to a bigint, the power, and every string it builds. The strings
  are built in the order of the source: the digits of the fraction, their padding,
  the digits of the whole part, the two joined by a point, the minus sign.
\<close>

definition formatAtomicAmount :: "engine \<Rightarrow> int \<Rightarrow> number \<Rightarrow> error + string" where
  "formatAtomicAmount E amountAtomic decimals =
     (if number_le decimals (Finite 0) then new_string E (BigInt_toString amountAtomic)
      else case NumberToBigInt decimals of
        Inl e \<Rightarrow> Inl e
      | Inr d \<Rightarrow>
        (case BigInt_pow E 10 d of
           Inl e \<Rightarrow> Inl e
         | Inr divisor \<Rightarrow>
           let negative = amountAtomic < 0;
               abs = (if negative then - amountAtomic else amountAtomic) in
           (case BigInt_div abs divisor of
              Inl e \<Rightarrow> Inl e
            | Inr whole \<Rightarrow>
           (case BigInt_rem abs divisor of
              Inl e \<Rightarrow> Inl e
            | Inr fraction \<Rightarrow>
           (case new_string E (BigInt_toString fraction) of
              Inl e \<Rightarrow> Inl e
            | Inr digits \<Rightarrow>
           (case padStart E digits (ToLength decimals) CHR ''0'' of
              Inl e \<Rightarrow> Inl e
            | Inr filled \<Rightarrow>
              let padded = strip_trailing_zeros filled in
           (case new_string E (BigInt_toString whole) of
              Inl e \<Rightarrow> Inl e
            | Inr wholeText \<Rightarrow>
           (case (if padded \<noteq> [] then new_string E (wholeText @ ''.'' @ padded)
                  else Inr wholeText) of
              Inl e \<Rightarrow> Inl e
            | Inr base \<Rightarrow>
                if negative then new_string E (''-'' @ base) else Inr base))))))))"

section \<open>Asset resolver\<close>

text \<open>
  The parsed payment requirements, with the fields the core reads. The schema that
  produces them is the payment library's and no part of the source, which casts the
  fields to loose types and inspects them at run time: every field is an arbitrary
  value.
\<close>

record PaymentRequirements =
  pr_network :: jsval
  pr_asset :: jsval
  pr_maxAmountRequired :: jsval
  pr_resource :: jsval
  pr_extra :: jsval

definition DEFAULT_DECIMALS :: number where
  "DEFAULT_DECIMALS = Finite 6"

text \<open>
  \<open>v?.k\<close> and \<open>v.k\<close> for the property names the resolver reads (\<open>address\<close>,
  \<open>decimals\<close>, \<open>assetDecimals\<close>): only a plain object can have them.
\<close>

definition member :: "jsval \<Rightarrow> string \<Rightarrow> jsval" where
  "member v k =
     (case v of
        JObject kvs \<Rightarrow> (case map_of kvs k of None \<Rightarrow> JUndefined | Some x \<Rightarrow> x)
      | _ \<Rightarrow> JUndefined)"

text \<open>\<open>v && typeof v === "object" && k in v\<close>.\<close>

definition object_with :: "jsval \<Rightarrow> string \<Rightarrow> bool" where
  "object_with v k = (case v of JObject kvs \<Rightarrow> map_of kvs k \<noteq> None | _ \<Rightarrow> False)"

text \<open>\<open>a ?? b\<close>.\<close>

definition nullish_or :: "jsval \<Rightarrow> jsval \<Rightarrow> jsval" where
  "nullish_or a b = (if a = JNull \<or> a = JUndefined then b else a)"

definition extraDecimals :: "PaymentRequirements \<Rightarrow> number option" where
  "extraDecimals paymentRequirements =
     (case member (pr_extra paymentRequirements) ''assetDecimals'' of
        JNumber n \<Rightarrow> Some n
      | _ \<Rightarrow> None)"

text \<open>
  \<open>resolveAssetInfo\<close>. The \<open>String(...)\<close> of the address stands outside any
  \<open>try\<close>: where it raises, the function raises.
\<close>

definition resolveAssetInfo ::
  "(rat \<Rightarrow> string) \<Rightarrow> PaymentRequirements \<Rightarrow> error + string \<times> number" where
  "resolveAssetInfo fin paymentRequirements =
     (let assetField = pr_asset paymentRequirements;
          extraDec = extraDecimals paymentRequirements;
          unknown = (''unknown'', case extraDec of Some n \<Rightarrow> n | None \<Rightarrow> DEFAULT_DECIMALS) in
      if object_with assetField ''address'' then
        (case js_String fin (nullish_or (member assetField ''address'') (JString ''unknown'')) of
           Inl e \<Rightarrow> Inl e
         | Inr address \<Rightarrow>
             let decimalsCandidate =
                   (case extraDec of
                      Some n \<Rightarrow> n
                    | None \<Rightarrow>
                        (case member assetField ''decimals'' of
                           JNumber n \<Rightarrow> n
                         | _ \<Rightarrow> DEFAULT_DECIMALS))
             in Inr (address, decimalsCandidate))
      else
        (case assetField of
           JString s \<Rightarrow>
             if trim s \<noteq> []
             then Inr (s, case extraDec of Some n \<Rightarrow> n | None \<Rightarrow> DEFAULT_DECIMALS)
             else Inr unknown
         | _ \<Rightarrow> Inr unknown))"

section \<open>Log lines\<close>

subsection \<open>Colours\<close>












subsection \<open>The structured log\<close>














section \<open>Settlement window aggregator\<close>

text \<open>
  A rolling total is \<open>{asset, decimals, amountAtomic}\<close>; a settlement entry has
  the same fields and a timestamp. Timestamps are what \<open>Date.now()\<close> returns:
  integral milliseconds, on which the subtraction of the source is exact.
\<close>

record RollingTotal =
  asset :: string
  decimals :: number
  amountAtomic :: int

record SettlementEntry = RollingTotal +
  timestamp :: int

definition MS_IN_DAY :: int where
  "MS_IN_DAY = 24 * 60 * 60 * 1000"

text \<open>The \<open>while\<close> loop of \<open>pruneSettlementWindow\<close>: \<open>shift()\<close> while the first
  entry is older than the cutoff.\<close>

fun pruneSettlementWindow :: "int \<Rightarrow> SettlementEntry list \<Rightarrow> SettlementEntry list" where
  "pruneSettlementWindow now [] = []"
| "pruneSettlementWindow now (e # es) =
     (if timestamp e < now - MS_IN_DAY then pruneSettlementWindow now es else e # es)"

text \<open>The key of the totals map: asset, a bar, the decimals as a string.\<close>

definition settlement_key :: "(rat \<Rightarrow> string) \<Rightarrow> 'a RollingTotal_scheme \<Rightarrow> string" where
  "settlement_key fin entry = asset entry @ ''|'' @ Number_toString fin (decimals entry)"

text \<open>
  The totals \<open>Map\<close> is the list of its bindings in insertion order. One turn of the
  loop over the window: add to the total stored under the key, or store a new one at
  the end.
\<close>

definition add_to_totals ::
  "(rat \<Rightarrow> string) \<Rightarrow> (string \<times> RollingTotal) list \<Rightarrow> SettlementEntry \<Rightarrow> (string \<times> RollingTotal) list" where
  "add_to_totals fin totals entry =
     (let key = settlement_key fin entry in
      case map_of totals key of
        Some existing \<Rightarrow>
          AList.update key (existing\<lparr>amountAtomic := amountAtomic existing + amountAtomic entry\<rparr>) totals
      | None \<Rightarrow>
          totals @ [(key, \<lparr>asset = asset entry, decimals = decimals entry,
                           amountAtomic = amountAtomic entry\<rparr>)])"

record SettlementSummary =
  totals :: "(string \<times> RollingTotal) list"
  count :: nat

text \<open>\<open>recordSettlement\<close> returns its summary and leaves the window updated.\<close>

definition recordSettlement ::
  "(rat \<Rightarrow> string) \<Rightarrow> int \<Rightarrow> string \<Rightarrow> number \<Rightarrow> int \<Rightarrow> SettlementEntry list
     \<Rightarrow> SettlementSummary \<times> SettlementEntry list" where
  "recordSettlement fin now a d amount settlementWindow =
     (let pushed = settlementWindow @
            [\<lparr>asset = a, decimals = d, amountAtomic = amount, timestamp = now\<rparr>];
          pruned = pruneSettlementWindow now pushed
      in (\<lparr>totals = foldl (add_to_totals fin) [] pruned, count = length pruned\<rparr>, pruned))"

text \<open>A run of calls, each \<open>(now, asset, decimals, amountAtomic)\<close>, on a window.\<close>

fun recordSettlements ::
  "(rat \<Rightarrow> string) \<Rightarrow> (int \<times> string \<times> number \<times> int) list \<Rightarrow> SettlementEntry list
     \<Rightarrow> SettlementEntry list" where
  "recordSettlements fin [] w = w"
| "recordSettlements fin ((now, a, d, amount) # calls) w =
     recordSettlements fin calls (snd (recordSettlement fin now a d amount w))"


section \<open>Request orchestrator\<close>



text \<open>
  The state of the process: the enabled networks, the signer cache (a promise is
  named by its number), the log of the calls of \<open>createSigner\<close>, and the window.
\<close>

record facilitator =
  allowedNetworks :: "string set"
  signerCache :: "string \<rightharpoonup> nat"
  createSigner_calls :: "string list"
  settlementWindow :: "SettlementEntry list"


text \<open>
  \<open>getSigner\<close> has no \<open>await\<close> in its body: a call runs to its end before any other
  code of the process does. \<open>createSigner\<close> is called at most once in it and returns
  a new promise at once, which is stored before the call returns.
\<close>

definition getSigner :: "string \<Rightarrow> facilitator \<Rightarrow> nat \<times> facilitator" where
  "getSigner network st =
     (case signerCache st network of
        Some promise \<Rightarrow> (promise, st)
      | None \<Rightarrow>
          (let promise = length (createSigner_calls st) in
           (promise, st\<lparr>signerCache := (signerCache st)(network \<mapsto> promise),
                         createSigner_calls := createSigner_calls st @ [network]\<rparr>)))"

text \<open>Calls of \<open>getSigner\<close> one after the other: the promises returned and the state.\<close>

fun getSigners :: "string list \<Rightarrow> facilitator \<Rightarrow> nat list \<times> facilitator" where
  "getSigners [] st = ([], st)"
| "getSigners (network # rest) st =
     (let (p, st1) = getSigner network st;
          (ps, st2) = getSigners rest st1
      in (p # ps, st2))"


section \<open>The amount codec as the specification words it\<close>

definition decimal_digit :: "char \<Rightarrow> bool" where
  "decimal_digit c = (c \<in> set ''0123456789'')"

text \<open>
  The fractional part of the specification: the remainder \<open>r\<close>, zero-padded to \<open>d\<close>
  digits, trailing zeros stripped.
\<close>

definition fraction_digits :: "nat \<Rightarrow> nat \<Rightarrow> string" where
  "fraction_digits r d =
     strip_trailing_zeros (replicate (d - length (nat_digits r)) CHR ''0'' @ nat_digits r)"

text \<open>
  The formatted amount of the specification: the integer as it is when \<open>d \<le> 0\<close>;
  otherwise the quotient of the magnitude by \<open>10^d\<close>, then a point and the
  fractional part unless that is empty, and one leading minus for a negative amount.
\<close>

definition formatAtomic_spec :: "int \<Rightarrow> int \<Rightarrow> string" where
  "formatAtomic_spec amount d =
     (if d \<le> 0 then BigInt_toString amount
      else let q = nat \<bar>amount\<bar> div 10 ^ nat d;
               r = nat \<bar>amount\<bar> mod 10 ^ nat d;
               fs = fraction_digits r (nat d);
               magnitude = nat_digits q @ (if fs = [] then [] else CHR ''.'' # fs)
           in if amount < 0 then CHR ''-'' # magnitude else magnitude)"

text \<open>The round trip of the specification: format, then parse the string.\<close>

definition format_then_parse ::
  "(rat \<Rightarrow> string) \<Rightarrow> engine \<Rightarrow> int \<Rightarrow> number \<Rightarrow> error + int option" where
  "format_then_parse fin E amount d =
     (case formatAtomicAmount E amount d of
        Inl e \<Rightarrow> Inl e
      | Inr s \<Rightarrow> safeParseAtomic fin (JString s))"

text \<open>
  The call is within the limits of the engine: the formatted amount is no longer
  than a string may be and, where there are decimals, the power of ten is no
  longer than a bigint may be and the padded fraction no longer than a string.
\<close>

definition within_limits :: "engine \<Rightarrow> int \<Rightarrow> int \<Rightarrow> bool" where
  "within_limits E amount d =
     (length (formatAtomic_spec amount d) \<le> string_limit E
      \<and> (0 < d \<longrightarrow> bigint_fits E (10 ^ nat d) \<and> nat d \<le> string_limit E))"
section \<open>The aggregator as the specification words it\<close>

text \<open>
  The sum of \<open>amountAtomic\<close> over the entries of a window whose asset and decimals
  are the given pair.
\<close>

definition group_total :: "SettlementEntry list \<Rightarrow> string \<Rightarrow> number \<Rightarrow> int" where
  "group_total w a d = sum_list (map amountAtomic (filter (\<lambda>e. asset e = a \<and> decimals e = d) w))"

text \<open>
  What the totals need of the rendering of numbers, on the decimals of a window: no
  rendering has a bar, and two decimals with one rendering are equal. It holds of
  \<open>Number.prototype.toString\<close>.
\<close>

definition rendering_separates :: "(rat \<Rightarrow> string) \<Rightarrow> SettlementEntry list \<Rightarrow> bool" where
  "rendering_separates fin w =
     ((\<forall>e\<in>set w. CHR ''|'' \<notin> set (Number_toString fin (decimals e)))
      \<and> (\<forall>e\<in>set w. \<forall>e'\<in>set w.
            Number_toString fin (decimals e) = Number_toString fin (decimals e')
              \<longrightarrow> decimals e = decimals e'))"

text \<open>The test of the pruning loop.\<close>

definition older_than_cutoff :: "int \<Rightarrow> SettlementEntry \<Rightarrow> bool" where
  "older_than_cutoff now e = (timestamp e < now - MS_IN_DAY)"

text \<open>
  The totals list \<open>T\<close> is the grouping of the window \<open>p\<close>: one binding for each
  key of the window, holding the pair and the sum of its group.
\<close>

definition totals_match ::
  "(rat \<Rightarrow> string) \<Rightarrow> (string \<times> RollingTotal) list \<Rightarrow> SettlementEntry list \<Rightarrow> bool" where
  "totals_match fin T p =
     (distinct (map fst T)
      \<and> fst ` set T = settlement_key fin ` set p
      \<and> (\<forall>e\<in>set p. map_of T (settlement_key fin e) =
             Some \<lparr>asset = asset e, decimals = decimals e,
                   amountAtomic = group_total p (asset e) (decimals e)\<rparr>))"

section \<open>The resolver as the specification words it\<close>

text \<open>The override: \<open>extra.assetDecimals\<close>, when \<open>extra\<close> has it and it is a number.\<close>

definition assetDecimals_override :: "jsval \<Rightarrow> number option" where
  "assetDecimals_override extra =
     (case extra of
        JObject xs \<Rightarrow> (case map_of xs ''assetDecimals'' of Some (JNumber n) \<Rightarrow> Some n | _ \<Rightarrow> None)
      | _ \<Rightarrow> None)"

text \<open>The override, else six.\<close>

definition override_or_default :: "jsval \<Rightarrow> number" where
  "override_or_default extra = (case assetDecimals_override extra of Some n \<Rightarrow> n | None \<Rightarrow> Finite 6)"

section \<open>The orchestrator as the specification words it\<close>



section \<open>The signer registry as the specification words it\<close>

text \<open>
  The cache holds a promise for exactly the networks \<open>createSigner\<close> was called for,
  and no network was created twice.
\<close>

definition cache_consistent :: "facilitator \<Rightarrow> bool" where
  "cache_consistent st =
     (distinct (createSigner_calls st) \<and> dom (signerCache st) = set (createSigner_calls st))"

text \<open>The process at start: nothing cached, no settlement recorded.\<close>

definition fresh_process :: "string set \<Rightarrow> facilitator" where
  "fresh_process networks =
     \<lparr>allowedNetworks = networks, signerCache = Map.empty, createSigner_calls = [],
      settlementWindow = []\<rparr>"

section \<open>Digits and the reading of integers\<close>

lemma below_ten: "n < 10 \<Longrightarrow> n \<in> {0, 1, 2, 3, 4, 5, 6, 7, 8, 9 :: nat}"
  by auto

lemma digit_char_decimal: "n < 10 \<Longrightarrow> decimal_digit (digit_char n)"
  by (drule below_ten) (auto simp: digit_char_def decimal_digit_def)

lemma digit_of_digit_char: "n < 10 \<Longrightarrow> digit_of (digit_char n) = Some n"
  by (drule below_ten) (auto simp: digit_char_def digit_of_def)

lemma digit_char_zero: "n < 10 \<Longrightarrow> (digit_char n = CHR ''0'') = (n = 0)"
  by (drule below_ten) (auto simp: digit_char_def)

lemma decimal_digit_plain:
  "decimal_digit c \<Longrightarrow> \<not> is_whitespace c \<and> c \<noteq> CHR ''-'' \<and> c \<noteq> CHR ''+'' \<and> c \<noteq> CHR ''.''
     \<and> c \<noteq> CHR ''x'' \<and> c \<noteq> CHR ''X'' \<and> c \<noteq> CHR ''o'' \<and> c \<noteq> CHR ''O''
     \<and> c \<noteq> CHR ''b'' \<and> c \<noteq> CHR ''B''"
  by (auto simp: decimal_digit_def is_whitespace_def)

lemma nat_digits_decimal: "\<forall>c\<in>set (nat_digits n). decimal_digit c"
proof (induction n rule: nat_digits.induct)
  case (1 n)
  show ?case
  proof (cases "n < 10")
    case True
    then show ?thesis by (subst nat_digits.simps) (simp add: digit_char_decimal)
  next
    case False
    with 1 show ?thesis by (subst nat_digits.simps) (simp add: digit_char_decimal)
  qed
qed

lemma nat_digits_nonempty: "nat_digits n \<noteq> []"
  by (subst nat_digits.simps) simp

lemma parse_digits_append:
  "parse_digits b (xs @ ys) acc =
     (case parse_digits b xs acc of None \<Rightarrow> None | Some a \<Rightarrow> parse_digits b ys a)"
  by (induction xs arbitrary: acc) (auto split: option.splits)

lemma parse_digits_nat_digits: "parse_digits 10 (nat_digits n) acc = Some (acc * 10 ^ length (nat_digits n) + n)"
proof (induction n arbitrary: acc rule: nat_digits.induct)
  case (1 n)
  show ?case
  proof (cases "n < 10")
    case True
    then show ?thesis by (subst (1 2) nat_digits.simps) (simp add: digit_of_digit_char)
  next
    case False
    have "parse_digits 10 (nat_digits (n div 10) @ [digit_char (n mod 10)]) acc
        = Some ((acc * 10 ^ length (nat_digits (n div 10)) + n div 10) * 10 + n mod 10)"
      using False by (simp add: parse_digits_append 1 digit_of_digit_char)
    then show ?thesis using False
      by (subst (1 2) nat_digits.simps) (simp add: algebra_simps)
  qed
qed

lemma parse_radix_nat_digits: "parse_radix 10 (nat_digits n) = Some n"
  by (simp add: parse_radix_def nat_digits_nonempty parse_digits_nat_digits)

lemma dropWhile_id: "s \<noteq> [] \<Longrightarrow> \<not> P (hd s) \<Longrightarrow> dropWhile P s = s"
  by (cases s) auto

lemma trim_id: "s \<noteq> [] \<Longrightarrow> \<not> is_whitespace (hd s) \<Longrightarrow> \<not> is_whitespace (last s) \<Longrightarrow> trim s = s"
  by (simp add: trim_def dropWhile_id hd_rev)

lemma trim_blank: "\<forall>c\<in>set s. is_whitespace c \<Longrightarrow> trim s = []"
proof -
  assume "\<forall>c\<in>set s. is_whitespace c"
  then have d: "dropWhile is_whitespace s = []" by simp
  show ?thesis unfolding trim_def d by simp
qed

lemma parse_digits_bad: "c \<in> set cs \<Longrightarrow> digit_of c = None \<Longrightarrow> parse_digits b cs acc = None"
  by (induction cs arbitrary: acc) (auto split: option.splits)

lemma parse_radix_bad: "c \<in> set cs \<Longrightarrow> digit_of c = None \<Longrightarrow> parse_radix b cs = None"
  by (auto simp: parse_radix_def parse_digits_bad)

lemma hd_last_nat_digits:
  "decimal_digit (hd (nat_digits n))" "decimal_digit (last (nat_digits n))"
  using nat_digits_decimal [of n] nat_digits_nonempty [of n] by auto

lemma StringToBigInt_plain:
  assumes "t \<noteq> []" "decimal_digit (hd t)" "\<not> is_whitespace (last t)"
    and "\<forall>c\<in>set t. c \<notin> set ''xXoObB''"
  shows "StringToBigInt t = map_option int (parse_radix 10 t)"
proof -
  have tr: "trim t = t" using assms by (simp add: trim_id decimal_digit_plain)
  have sg: "parse_signed t = map_option int (parse_radix 10 t)"
    using assms(1,2) by (cases t) (auto simp: parse_signed_def dest: decimal_digit_plain)
  show ?thesis
  proof (cases t)
    case Nil
    with assms show ?thesis by simp
  next
    case (Cons c0 r)
    show ?thesis
    proof (cases r)
      case Nil
      with Cons tr sg show ?thesis by (simp add: StringToBigInt_def)
    next
      case (Cons c1 ds)
      with \<open>t = c0 # r\<close> assms(4) have "c1 \<notin> set ''xXoObB''" by simp
      then have "c1 \<noteq> CHR ''x'' \<and> c1 \<noteq> CHR ''X'' \<and> c1 \<noteq> CHR ''o'' \<and> c1 \<noteq> CHR ''O''
         \<and> c1 \<noteq> CHR ''b'' \<and> c1 \<noteq> CHR ''B''" by simp
      with Cons \<open>t = c0 # r\<close> tr sg show ?thesis by (simp add: StringToBigInt_def)
    qed
  qed
qed

lemma StringToBigInt_nat_digits: "StringToBigInt (nat_digits n) = Some (int n)"
proof -
  have "\<forall>c\<in>set (nat_digits n). c \<notin> set ''xXoObB''"
    using nat_digits_decimal [of n] decimal_digit_plain by auto
  then show ?thesis
    using hd_last_nat_digits [of n]
    by (simp add: StringToBigInt_plain nat_digits_nonempty decimal_digit_plain parse_radix_nat_digits)
qed

lemma StringToBigInt_minus: "StringToBigInt (CHR ''-'' # nat_digits n) = Some (- int n)"
proof -
  let ?t = "CHR ''-'' # nat_digits n"
  have "\<not> is_whitespace (CHR ''-'')" by (simp add: is_whitespace_def)
  moreover have "\<not> is_whitespace (last ?t)"
    using hd_last_nat_digits(2) [of n] nat_digits_nonempty [of n] by (simp add: decimal_digit_plain)
  ultimately have tr: "trim ?t = ?t" by (simp add: trim_id)
  obtain c1 ds where nd: "nat_digits n = c1 # ds" using nat_digits_nonempty [of n] by (cases "nat_digits n") auto
  show ?thesis
    using tr parse_radix_nat_digits [of n] by (simp add: StringToBigInt_def nd parse_signed_def)
qed

lemma StringToBigInt_toString: "StringToBigInt (BigInt_toString i) = Some i"
  by (simp add: BigInt_toString_def StringToBigInt_minus StringToBigInt_nat_digits)

lemma trim_toString: "trim (BigInt_toString i) = BigInt_toString i"
proof -
  have "\<not> is_whitespace (CHR ''-'')" by (simp add: is_whitespace_def)
  then show ?thesis
    using hd_last_nat_digits [of "nat i"] hd_last_nat_digits [of "nat (- i)"]
      nat_digits_nonempty [of "nat i"] nat_digits_nonempty [of "nat (- i)"]
    by (auto simp: BigInt_toString_def trim_id decimal_digit_plain)
qed

lemma toString_nonempty: "BigInt_toString i \<noteq> []"
  by (simp add: BigInt_toString_def nat_digits_nonempty)

lemma safeParseAtomic_toString: "safeParseAtomic fin (JString (BigInt_toString i)) = Inr (Some i)"
  by (simp add: safeParseAtomic_def safeParseAtomic_try_def parse_text_def trim_toString toString_nonempty
      BigInt_of_string_def StringToBigInt_toString)

lemma BigInt_div_nonneg: "0 \<le> a \<Longrightarrow> 0 < b \<Longrightarrow> BigInt_div a b = Inr (a div b)"
  by (cases "a = 0") (simp_all add: BigInt_div_def)

lemma BigInt_rem_nonneg: "0 \<le> a \<Longrightarrow> 0 < b \<Longrightarrow> BigInt_rem a b = Inr (a mod b)"
  by (cases "a = 0") (simp_all add: BigInt_rem_def)

lemma toString_nonneg: "0 \<le> i \<Longrightarrow> BigInt_toString i = nat_digits (nat i)"
  by (simp add: BigInt_toString_def)

lemma new_string_fits: "length s \<le> string_limit E \<Longrightarrow> new_string E s = Inr s"
  by (simp add: new_string_def)

lemma padStart_fits:
  assumes "length s \<le> n" "n \<le> string_limit E"
  shows "padStart E s n c = Inr (replicate (n - length s) c @ s)"
proof (cases "n \<le> length s")
  case True
  with assms(1) have "n - length s = 0" by simp
  with True show ?thesis by (simp add: padStart_def)
next
  case False
  with assms have "length (replicate (n - length s) c @ s) \<le> string_limit E" by simp
  with False show ?thesis by (simp only: padStart_def if_False new_string_fits)
qed

lemma string_limit_cap: "string_limit E \<le> 2 ^ 53 - 1"
  by (simp add: string_limit_def)

lemma ToLength_integral:
  assumes "0 < d" "nat d \<le> string_limit E"
  shows "ToLength (Finite (of_int d)) = nat d"
proof -
  from assms(2) string_limit_cap [of E] have "nat d \<le> 2 ^ 53 - 1" by (rule order_trans)
  then have "min (nat d) (2 ^ 53 - 1) = nat d" by (rule min_absorb1)
  moreover have "\<not> (of_int d :: rat) \<le> 0" using assms(1) by simp
  ultimately show ?thesis by (simp only: ToLength.simps if_False floor_of_int)
qed

lemma nat_digits_length: "n < 10 ^ k \<Longrightarrow> 0 < k \<Longrightarrow> length (nat_digits n) \<le> k"
proof (induction n arbitrary: k rule: nat_digits.induct)
  case (1 n)
  show ?case
  proof (cases "n < 10")
    case True
    then have "nat_digits n = [digit_char n]" by (subst nat_digits.simps) simp
    with 1(3) show ?thesis by simp
  next
    case False
    from 1(3) obtain j where k: "k = Suc j" by (cases k) simp_all
    from False 1(2) k have j: "0 < j" by (cases j) simp_all
    from 1(2) k have "n div 10 < 10 ^ j" by (simp add: less_mult_imp_div_less mult.commute)
    from 1(1) [OF False this j] have "length (nat_digits (n div 10)) \<le> j" .
    moreover from False have "nat_digits n = nat_digits (n div 10) @ [digit_char (n mod 10)]"
      by (subst nat_digits.simps) simp
    ultimately show ?thesis using k by simp
  qed
qed

lemma bigint_fits_beyond:
  assumes "max_bigint_bits E \<le> n"
  shows "\<not> bigint_fits E (10 ^ n)"
proof -
  have "(2::int) ^ max_bigint_bits E \<le> 2 ^ n" using assms by (rule power_increasing) simp
  also have "\<dots> \<le> 10 ^ n" by (rule power_mono) simp_all
  finally have "(2::int) ^ max_bigint_bits E \<le> \<bar>10 ^ n\<bar>" by simp
  then show ?thesis unfolding bigint_fits_def by (simp only: not_less)
qed

lemma bigint_fits_node:
  assumes "\<bar>i\<bar> < 2 ^ 64"
  shows "bigint_fits node_engine i"
proof -
  have "(64::nat) \<le> max_bigint_bits node_engine" by (simp add: node_engine_def)
  then have "(2::int) ^ 64 \<le> 2 ^ max_bigint_bits node_engine" by (rule power_increasing) simp
  with assms show ?thesis unfolding bigint_fits_def by (rule less_le_trans)
qed

lemma string_limit_node: "string_limit node_engine = 536870888"
  by (simp add: string_limit_def node_engine_def)

lemma formatAtomicAmount_nonpositive:
  "number_le n (Finite 0) \<Longrightarrow> formatAtomicAmount E a n = new_string E (BigInt_toString a)"
  by (simp add: formatAtomicAmount_def)

lemma formatAtomicAmount_raises:
  assumes "\<not> number_le n (Finite 0)" "\<forall>d. n \<noteq> Finite (of_int d)"
  shows "formatAtomicAmount E amount n = Inl RangeError"
proof (cases n)
  case (Finite q)
  with assms(2) have "of_int \<lfloor>q\<rfloor> \<noteq> q" by metis
  with assms(1) Finite show ?thesis by (simp add: formatAtomicAmount_def)
next
  case PosInfinity
  then show ?thesis by (simp add: formatAtomicAmount_def)
next
  case NegInfinity
  with assms(1) show ?thesis by simp
next
  case NaN
  then show ?thesis by (simp add: formatAtomicAmount_def)
qed

lemma formatAtomicAmount_power:
  assumes d: "0 < d" and big: "\<not> bigint_fits E (10 ^ nat d)"
  shows "formatAtomicAmount E a (Finite (of_int d)) = Inl RangeError"
proof -
  have h1: "number_le (Finite (of_int d)) (Finite 0) = False" using d by simp
  have h2: "NumberToBigInt (Finite (of_int d)) = Inr d" by simp
  have h3: "BigInt_pow E 10 d = Inl RangeError" using d big by (simp add: BigInt_pow_def)
  show ?thesis
    by (simp only: formatAtomicAmount_def h1 h2 h3 if_False sum.case)
qed

lemma formatAtomicAmount_positive:
  assumes d: "0 < d" and fits: "bigint_fits E (10 ^ nat d)" and len: "nat d \<le> string_limit E"
  shows "formatAtomicAmount E a (Finite (of_int d)) =
      (let padded = fraction_digits (nat \<bar>a\<bar> mod 10 ^ nat d) (nat d) in
       case new_string E (nat_digits (nat \<bar>a\<bar> div 10 ^ nat d)) of
         Inl e \<Rightarrow> Inl e
       | Inr wholeText \<Rightarrow>
           (case (if padded \<noteq> [] then new_string E (wholeText @ ''.'' @ padded) else Inr wholeText) of
              Inl e \<Rightarrow> Inl e
            | Inr base \<Rightarrow> if a < 0 then new_string E (''-'' @ base) else Inr base))"
proof -
  have h1: "number_le (Finite (of_int d)) (Finite 0) = False" using d by simp
  have h2: "NumberToBigInt (Finite (of_int d)) = Inr d" by simp
  have h3: "BigInt_pow E 10 d = Inr (10 ^ nat d)" using d fits by (simp add: BigInt_pow_def)
  have abs: "(if a < 0 then - a else a) = \<bar>a\<bar>" by simp
  have h4: "BigInt_div \<bar>a\<bar> (10 ^ nat d) = Inr (\<bar>a\<bar> div 10 ^ nat d)"
    by (rule BigInt_div_nonneg) simp_all
  have h5: "BigInt_rem \<bar>a\<bar> (10 ^ nat d) = Inr (\<bar>a\<bar> mod 10 ^ nat d)"
    by (rule BigInt_rem_nonneg) simp_all
  have q: "nat (\<bar>a\<bar> div 10 ^ nat d) = nat \<bar>a\<bar> div 10 ^ nat d"
    by (simp add: nat_div_distrib nat_power_eq)
  have r: "nat (\<bar>a\<bar> mod 10 ^ nat d) = nat \<bar>a\<bar> mod 10 ^ nat d"
    by (simp add: nat_mod_distrib nat_power_eq)
  have qn: "BigInt_toString (\<bar>a\<bar> div 10 ^ nat d) = nat_digits (nat \<bar>a\<bar> div 10 ^ nat d)"
    by (subst toString_nonneg) (simp_all add: pos_imp_zdiv_nonneg_iff q)
  have rn: "BigInt_toString (\<bar>a\<bar> mod 10 ^ nat d) = nat_digits (nat \<bar>a\<bar> mod 10 ^ nat d)"
    by (subst toString_nonneg) (simp_all add: r)
  have rl: "length (nat_digits (nat \<bar>a\<bar> mod 10 ^ nat d)) \<le> nat d"
    by (rule nat_digits_length) (use d in simp_all)
  then have "length (nat_digits (nat \<bar>a\<bar> mod 10 ^ nat d)) \<le> string_limit E"
    using len by (rule order_trans)
  then have h6: "new_string E (nat_digits (nat \<bar>a\<bar> mod 10 ^ nat d)) = Inr (nat_digits (nat \<bar>a\<bar> mod 10 ^ nat d))"
    by (rule new_string_fits)
  have h7: "ToLength (Finite (of_int d)) = nat d" using d len by (rule ToLength_integral)
  have h8: "padStart E (nat_digits (nat \<bar>a\<bar> mod 10 ^ nat d)) (nat d) CHR ''0'' =
      Inr (replicate (nat d - length (nat_digits (nat \<bar>a\<bar> mod 10 ^ nat d))) CHR ''0''
            @ nat_digits (nat \<bar>a\<bar> mod 10 ^ nat d))"
    using rl len by (rule padStart_fits)
  show ?thesis
    by (simp only: formatAtomicAmount_def h1 h2 h3 h4 h5 qn rn h6 h7 h8 abs Let_def if_False sum.case
        fraction_digits_def)
qed

lemma formatAtomic_spec_positive:
  "0 < d \<Longrightarrow> formatAtomic_spec a d =
     (if a < 0 then ''-'' else []) @ nat_digits (nat \<bar>a\<bar> div 10 ^ nat d) @
     (if fraction_digits (nat \<bar>a\<bar> mod 10 ^ nat d) (nat d) = [] then []
      else CHR ''.'' # fraction_digits (nat \<bar>a\<bar> mod 10 ^ nat d) (nat d))"
  by (simp add: formatAtomic_spec_def Let_def)

lemma formatAtomicAmount_integral:
  assumes "within_limits E a d"
  shows "formatAtomicAmount E a (Finite (of_int d)) = Inr (formatAtomic_spec a d)"
proof (cases "d \<le> 0")
  case True
  from assms have "length (BigInt_toString a) \<le> string_limit E"
    using True by (simp add: within_limits_def formatAtomic_spec_def)
  then have "new_string E (BigInt_toString a) = Inr (BigInt_toString a)" by (rule new_string_fits)
  with True show ?thesis by (simp add: formatAtomicAmount_def formatAtomic_spec_def)
next
  case False
  then have d: "0 < d" by simp
  define ws where "ws = nat_digits (nat \<bar>a\<bar> div 10 ^ nat d)"
  define fs where "fs = fraction_digits (nat \<bar>a\<bar> mod 10 ^ nat d) (nat d)"
  from assms d have fits: "bigint_fits E (10 ^ nat d)" and len: "nat d \<le> string_limit E"
    and total: "length (formatAtomic_spec a d) \<le> string_limit E"
    by (simp_all add: within_limits_def)
  have spec: "formatAtomic_spec a d =
      (if a < 0 then ''-'' else []) @ ws @ (if fs = [] then [] else CHR ''.'' # fs)"
    unfolding ws_def fs_def by (rule formatAtomic_spec_positive [OF d])
  have l1: "length ws \<le> string_limit E" using total unfolding spec by simp
  have l2: "length (ws @ ''.'' @ fs) \<le> string_limit E" if "fs \<noteq> []"
    using total that unfolding spec by (simp split: if_splits)
  have w: "new_string E ws = Inr ws" using l1 by (rule new_string_fits)
  have b: "(if fs \<noteq> [] then new_string E (ws @ ''.'' @ fs) else Inr ws)
      = Inr (ws @ (if fs = [] then [] else CHR ''.'' # fs))"
    using l2 by (simp add: new_string_fits)
  have n: "new_string E (''-'' @ ws @ (if fs = [] then [] else CHR ''.'' # fs))
      = Inr (''-'' @ ws @ (if fs = [] then [] else CHR ''.'' # fs))" if "a < 0"
    using total that unfolding spec by (intro new_string_fits) simp
  have "formatAtomicAmount E a (Finite (of_int d)) =
      (case new_string E ws of
         Inl e \<Rightarrow> Inl e
       | Inr wholeText \<Rightarrow>
           (case (if fs \<noteq> [] then new_string E (wholeText @ ''.'' @ fs) else Inr wholeText) of
              Inl e \<Rightarrow> Inl e
            | Inr base \<Rightarrow> if a < 0 then new_string E (''-'' @ base) else Inr base))"
    unfolding ws_def fs_def formatAtomicAmount_positive [OF d fits len] by (simp only: Let_def)
  also have "\<dots> = (if a < 0 then new_string E (''-'' @ ws @ (if fs = [] then [] else CHR ''.'' # fs))
                     else Inr (ws @ (if fs = [] then [] else CHR ''.'' # fs)))"
    by (simp only: w b sum.case)
  also have "\<dots> = Inr (formatAtomic_spec a d)"
    using n unfolding spec by simp
  finally show ?thesis .
qed

lemma all_zero_digits: "(\<forall>c\<in>set (nat_digits r). c = CHR ''0'') = (r = 0)"
proof (induction r rule: nat_digits.induct)
  case (1 n)
  show ?case
  proof (cases "n < 10")
    case True
    then have "nat_digits n = [digit_char n]" by (subst nat_digits.simps) simp
    with True show ?thesis by (simp add: digit_char_zero)
  next
    case False
    then have ne: "n div 10 \<noteq> 0" by simp
    from False have eq: "nat_digits n = nat_digits (n div 10) @ [digit_char (n mod 10)]"
      by (subst nat_digits.simps) simp
    from 1 [OF False] ne obtain c where "c \<in> set (nat_digits (n div 10))" "c \<noteq> CHR ''0''"
      by blast
    then have "\<not> (\<forall>c\<in>set (nat_digits n). c = CHR ''0'')" unfolding eq by auto
    with False show ?thesis by simp
  qed
qed

lemma strip_empty: "(strip_trailing_zeros s = []) = (\<forall>c\<in>set s. c = CHR ''0'')"
  by (simp add: strip_trailing_zeros_def dropWhile_eq_Nil_conv)

lemma fraction_digits_empty: "(fraction_digits r d = []) = (r = 0)"
proof -
  have "(fraction_digits r d = []) =
      (\<forall>c\<in>set (replicate (d - length (nat_digits r)) CHR ''0'' @ nat_digits r). c = CHR ''0'')"
    by (simp only: fraction_digits_def strip_empty)
  also have "\<dots> = (\<forall>c\<in>set (nat_digits r). c = CHR ''0'')"
    by (simp add: ball_Un)
  also have "\<dots> = (r = 0)"
    by (rule all_zero_digits)
  finally show ?thesis .
qed

lemma set_strip: "set (strip_trailing_zeros s) \<subseteq> set s"
  by (auto simp: strip_trailing_zeros_def dest: set_dropWhileD)

lemma fraction_digits_decimal: "\<forall>c\<in>set (fraction_digits r d). decimal_digit c"
proof
  fix c assume "c \<in> set (fraction_digits r d)"
  then have "c \<in> set (replicate (d - length (nat_digits r)) CHR ''0'' @ nat_digits r)"
    unfolding fraction_digits_def using set_strip by blast
  then have "c = CHR ''0'' \<or> c \<in> set (nat_digits r)" by auto
  moreover have "decimal_digit CHR ''0''" by (simp add: decimal_digit_def)
  ultimately show "decimal_digit c"
    using nat_digits_decimal [of r] by blast
qed

lemma StringToBigInt_fraction:
  assumes "fs \<noteq> []" "\<forall>c\<in>set fs. decimal_digit c"
  shows "StringToBigInt (nat_digits q @ CHR ''.'' # fs) = None"
proof -
  let ?t = "nat_digits q @ CHR ''.'' # fs"
  have 1: "?t \<noteq> []" by simp
  have 2: "decimal_digit (hd ?t)"
    using hd_last_nat_digits(1) [of q] nat_digits_nonempty [of q] by simp
  have "decimal_digit (last fs)" using assms by simp
  then have 3: "\<not> is_whitespace (last ?t)" using assms(1) by (simp add: decimal_digit_plain)
  have 4: "\<forall>c\<in>set ?t. c \<notin> set ''xXoObB''"
  proof
    fix c assume "c \<in> set ?t"
    then have "decimal_digit c \<or> c = CHR ''.''"
      using nat_digits_decimal [of q] assms(2) by auto
    then show "c \<notin> set ''xXoObB''" by (auto simp: decimal_digit_def)
  qed
  have "digit_of CHR ''.'' = None" by (simp add: digit_of_def)
  then have "parse_radix 10 ?t = None" by (intro parse_radix_bad [of "CHR ''.''"]) simp_all
  with StringToBigInt_plain [OF 1 2 3 4] show ?thesis by simp
qed

lemma safeParseAtomic_string:
  "safeParseAtomic fin (JString s) =
     (if trim s = [] then Inr None
      else case StringToBigInt (trim s) of None \<Rightarrow> Inr None | Some i \<Rightarrow> Inr (Some i))"
  by (simp add: safeParseAtomic_def safeParseAtomic_try_def parse_text_def BigInt_of_string_def split: option.splits)

lemma dvd_iff_mod_nat: "0 \<le> a \<Longrightarrow> ((10::int) ^ n dvd a) = (nat \<bar>a\<bar> mod 10 ^ n = 0)"
proof -
  assume a: "0 \<le> a"
  have "((10::int) ^ n dvd a) = (int (10 ^ n) dvd int (nat a))" using a by simp
  also have "\<dots> = ((10::nat) ^ n dvd nat a)" by (simp only: int_dvd_int_iff)
  also have "\<dots> = (nat \<bar>a\<bar> mod 10 ^ n = 0)" using a by (simp add: mod_eq_0_iff_dvd)
  finally show ?thesis .
qed

lemma fraction_has_point:
  assumes a: "0 \<le> a" and d: "0 < d" and nd: "\<not> 10 ^ nat d dvd a"
  shows "CHR ''.'' \<in> set (formatAtomic_spec a d)"
proof -
  have "nat \<bar>a\<bar> mod 10 ^ nat d \<noteq> 0" using a nd by (simp add: dvd_iff_mod_nat)
  then have "fraction_digits (nat \<bar>a\<bar> mod 10 ^ nat d) (nat d) \<noteq> []"
    by (simp add: fraction_digits_empty)
  then show ?thesis by (simp add: formatAtomic_spec_positive [OF d])
qed

lemma format_then_parse_nonneg:
  assumes a: "0 \<le> a" and d: "0 \<le> d" and lim: "within_limits E a d"
  shows "format_then_parse fin E a (Finite (of_int d)) =
     (if 10 ^ nat d dvd a then Inr (Some (a div 10 ^ nat d)) else Inr None)"
proof (cases "d = 0")
  case True
  with lim have "formatAtomicAmount E a (Finite 0) = Inr (BigInt_toString a)"
    using formatAtomicAmount_integral [of E a 0] by (simp add: formatAtomic_spec_def)
  with True show ?thesis
    by (simp add: format_then_parse_def safeParseAtomic_toString)
next
  case False
  with d have dpos: "0 < d" by simp
  define q where "q = nat \<bar>a\<bar> div 10 ^ nat d"
  define r where "r = nat \<bar>a\<bar> mod 10 ^ nat d"
  define fs where "fs = fraction_digits r (nat d)"
  have fmt: "formatAtomic_spec a d = nat_digits q @ (if fs = [] then [] else CHR ''.'' # fs)"
    using a dpos by (simp add: formatAtomic_spec_def Let_def q_def r_def fs_def)
  have qa: "int q = a div 10 ^ nat d"
    using a by (simp add: q_def zdiv_int)
  note integral = formatAtomicAmount_integral [OF lim]
  show ?thesis
  proof (cases "10 ^ nat d dvd a")
    case True
    then have "r = 0" using a by (simp add: r_def dvd_iff_mod_nat)
    then have "fs = []" by (simp add: fs_def fraction_digits_empty)
    with fmt have "formatAtomic_spec a d = BigInt_toString (int q)"
      by (simp add: BigInt_toString_def)
    with True show ?thesis
      by (simp add: format_then_parse_def integral safeParseAtomic_toString qa)
  next
    case False
    then have "r \<noteq> 0" using a by (simp add: r_def dvd_iff_mod_nat)
    then have ne: "fs \<noteq> []" by (simp add: fs_def fraction_digits_empty)
    have dec: "\<forall>c\<in>set fs. decimal_digit c" by (simp add: fs_def fraction_digits_decimal)
    let ?t = "nat_digits q @ CHR ''.'' # fs"
    have "decimal_digit (last fs)" using ne dec by simp
    then have "trim ?t = ?t"
      using hd_last_nat_digits(1) [of q] nat_digits_nonempty [of q] ne
      by (intro trim_id) (simp_all add: decimal_digit_plain)
    then have "safeParseAtomic fin (JString ?t) = Inr None"
      by (simp add: safeParseAtomic_string StringToBigInt_fraction [OF ne dec])
    with False ne fmt show ?thesis
      by (simp add: format_then_parse_def integral)
  qed
qed

lemma last_dropWhile_keep: "dropWhile P xs \<noteq> [] \<Longrightarrow> last (dropWhile P xs) = last xs"
  by (induction xs) (auto split: if_splits)

lemma trim_idem: "trim (trim s) = trim s"
proof (cases "trim s = []")
  case True
  show ?thesis unfolding True by (simp add: trim_def)
next
  case False
  define u where "u = dropWhile is_whitespace s"
  define v where "v = dropWhile is_whitespace (rev u)"
  have t: "trim s = rev v" by (simp add: trim_def u_def v_def)
  with False have v: "v \<noteq> []" by simp
  then have u: "u \<noteq> []" by (auto simp: v_def)
  have "\<not> is_whitespace (hd v)" using v unfolding v_def by (rule hd_dropWhile)
  then have l: "\<not> is_whitespace (last (trim s))" using v by (simp add: t last_rev)
  have "last v = last (rev u)" using v unfolding v_def by (rule last_dropWhile_keep)
  moreover have "\<not> is_whitespace (hd u)" using u unfolding u_def by (rule hd_dropWhile)
  ultimately have h: "\<not> is_whitespace (hd (trim s))" using v u by (simp add: t hd_rev last_rev)
  from False h l show ?thesis by (rule trim_id)
qed

lemma digit_of_zero: "digit_of CHR ''0'' = Some 0"
  by (simp add: digit_of_def)

lemma digit_of_b: "digit_of CHR ''b'' \<noteq> None" "digit_of CHR ''B'' \<noteq> None"
  by (simp_all add: digit_of_def)

lemma parse_signed_bad:
  assumes "c \<in> set t" "digit_of c = None" "c \<noteq> CHR ''+''" "c \<noteq> CHR ''-''"
  shows "parse_signed t = None"
proof (cases t)
  case Nil
  then show ?thesis by (simp add: parse_signed_def)
next
  case (Cons c0 ds)
  have whole: "parse_radix 10 t = None" using assms(1,2) by (rule parse_radix_bad)
  show ?thesis
  proof (cases "c0 = CHR ''-'' \<or> c0 = CHR ''+''")
    case True
    with assms Cons have "c \<in> set ds" by auto
    then have "parse_radix 10 ds = None" using assms(2) by (rule parse_radix_bad)
    with True Cons show ?thesis by (auto simp: parse_signed_def)
  next
    case False
    with whole Cons show ?thesis by (simp add: parse_signed_def)
  qed
qed

lemma StringToBigInt_bad:
  assumes tr: "trim t = t" and c: "c \<in> set t" and d: "digit_of c = None"
    and x: "c \<notin> set ''xXoO+-''"
  shows "StringToBigInt t = None"
proof -
  have sg: "parse_signed t = None" using c d x by (intro parse_signed_bad [of c]) simp_all
  have ne: "t \<noteq> []" using c by auto
  have c0: "c \<noteq> CHR ''0''" using d digit_of_zero by auto
  have "c \<noteq> CHR ''b''" "c \<noteq> CHR ''B''" using d digit_of_b by auto
  with x have cx: "c \<notin> set ''xXoObB''" by simp
  show ?thesis
  proof (cases t)
    case Nil
    with ne show ?thesis by simp
  next
    case (Cons c0 r)
    note t = this
    show ?thesis
    proof (cases r)
      case Nil
      with t tr sg show ?thesis by (simp add: StringToBigInt_def)
    next
      case (Cons c1 ds)
      show ?thesis
      proof (cases "c0 = CHR ''0'' \<and> c1 \<in> set ''xXoObB''")
        case True
        then have z: "c0 = CHR ''0''" and c1: "c1 \<in> set ''xXoObB''" by blast+
        then have "c \<noteq> c0" using c0 by simp
        moreover have "c \<noteq> c1" using c1 cx by metis
        ultimately have "c \<in> set ds" using c t Cons by simp
        then have "parse_radix b ds = None" for b using d by (rule parse_radix_bad)
        with t Cons tr z c1 show ?thesis by (auto simp: StringToBigInt_def)
      next
        case False
        with t Cons tr sg show ?thesis by (auto simp: StringToBigInt_def)
      qed
    qed
  qed
qed

lemma safeParseAtomic_malformed:
  assumes "c \<in> set (trim s)" "digit_of c = None" "c \<notin> set ''xXoO+-''"
  shows "safeParseAtomic fin (JString s) = Inr None"
  using StringToBigInt_bad [OF trim_idem assms] by (simp add: safeParseAtomic_string)

lemma safeParseAtomic_blank:
  "\<forall>c\<in>set s. is_whitespace c \<Longrightarrow> safeParseAtomic fin (JString s) = Inr None"
  by (simp add: safeParseAtomic_string trim_blank)

lemma safeParseAtomic_trimmed: "safeParseAtomic fin (JString s) = safeParseAtomic fin (JString (trim s))"
  by (simp add: safeParseAtomic_string trim_idem)

lemma safeParseAtomic_returns: "\<exists>r. safeParseAtomic fin raw = Inr r"
  by (cases "safeParseAtomic_try fin raw") (simp_all add: safeParseAtomic_def)

lemma safeParseAtomic_finite: "safeParseAtomic fin (JNumber (Finite q)) = Inr (Some (trunc_rat q))"
  by (simp add: safeParseAtomic_def safeParseAtomic_try_def parse_text_def)

lemma trunc_rat_toward_zero:
  "\<bar>of_int (trunc_rat q)\<bar> \<le> \<bar>q\<bar>" "\<bar>q - of_int (trunc_rat q)\<bar> < 1"
  by (auto simp: trunc_rat_def) linarith+

lemma StringToBigInt_names:
  "StringToBigInt ''NaN'' = None" "StringToBigInt ''Infinity'' = None"
  "StringToBigInt ''-Infinity'' = None"
proof -
  have "trim ''NaN'' = ''NaN''" by (rule trim_id) (simp_all add: is_whitespace_def)
  then show "StringToBigInt ''NaN'' = None"
    by (rule StringToBigInt_bad [of _ "CHR ''N''"]) (simp_all add: digit_of_def)
  have "trim ''Infinity'' = ''Infinity''" by (rule trim_id) (simp_all add: is_whitespace_def)
  then show "StringToBigInt ''Infinity'' = None"
    by (rule StringToBigInt_bad [of _ "CHR ''I''"]) (simp_all add: digit_of_def)
  have "trim ''-Infinity'' = ''-Infinity''" by (rule trim_id) (simp_all add: is_whitespace_def)
  then show "StringToBigInt ''-Infinity'' = None"
    by (rule StringToBigInt_bad [of _ "CHR ''I''"]) (simp_all add: digit_of_def)
qed

lemma safeParseAtomic_nonfinite:
  "safeParseAtomic fin (JNumber NaN) = Inr None"
  "safeParseAtomic fin (JNumber PosInfinity) = Inr None"
  "safeParseAtomic fin (JNumber NegInfinity) = Inr None"
proof -
  have t: "trim ''NaN'' = ''NaN''" "trim ''Infinity'' = ''Infinity''"
    "trim ''-Infinity'' = ''-Infinity''"
    by (rule trim_id, simp_all add: is_whitespace_def)+
  show "safeParseAtomic fin (JNumber NaN) = Inr None"
    "safeParseAtomic fin (JNumber PosInfinity) = Inr None"
    "safeParseAtomic fin (JNumber NegInfinity) = Inr None"
    by (simp_all add: safeParseAtomic_def safeParseAtomic_try_def parse_text_def t BigInt_of_string_def
        StringToBigInt_names)
qed

lemma nat_digits_numeral:
  "nat_digits (numeral k) =
     (if numeral k < (10::nat) then [digit_char (numeral k)]
      else nat_digits (numeral k div 10) @ [digit_char (numeral k mod 10)])"
  by (rule nat_digits.simps)

lemma nat_digits_small: "nat_digits 0 = ''0''" "nat_digits 1 = ''1''" "nat_digits (Suc 0) = ''1''"
  by (simp_all add: nat_digits.simps digit_char_def)

lemmas format_evals = nat_digits_numeral nat_digits_small digit_char_def
  formatAtomicAmount_def BigInt_pow_def BigInt_div_def BigInt_rem_def
  BigInt_toString_def padStart_def strip_trailing_zeros_def
  new_string_def string_limit_node bigint_fits_node

lemma formatAtomicAmount_examples:
  "formatAtomicAmount node_engine 1234567 (Finite 6) = Inr ''1.234567''"
  "formatAtomicAmount node_engine 1000000 (Finite 6) = Inr ''1''"
  "formatAtomicAmount node_engine 0 (Finite 6) = Inr ''0''"
  "formatAtomicAmount node_engine (- 500000) (Finite 6) = Inr ''-0.5''"
  by (simp_all add: format_evals)

lemma strip_length: "length (strip_trailing_zeros s) \<le> length s"
  unfolding strip_trailing_zeros_def length_rev
  using length_dropWhile_le [of "\<lambda>c. c = CHR ''0''" "rev s"] by simp

lemma fraction_digits_length:
  assumes "length (nat_digits r) \<le> d"
  shows "length (fraction_digits r d) \<le> d"
proof -
  have "length (replicate (d - length (nat_digits r)) CHR ''0'' @ nat_digits r) = d"
    using assms by simp
  with strip_length [of "replicate (d - length (nat_digits r)) CHR ''0'' @ nat_digits r"]
  show ?thesis by (simp only: fraction_digits_def)
qed

lemma toString_length:
  assumes "\<bar>a\<bar> < 10 ^ K" "0 < K"
  shows "length (BigInt_toString a) \<le> K + 1"
proof -
  have "nat \<bar>a\<bar> < 10 ^ K" using assms(1) by (simp add: nat_less_iff)
  then have l: "length (nat_digits (nat \<bar>a\<bar>)) \<le> K" using assms(2) by (rule nat_digits_length)
  show ?thesis
  proof (cases "a < 0")
    case True
    then have "nat \<bar>a\<bar> = nat (- a)" by simp
    with l True show ?thesis by (simp add: BigInt_toString_def)
  next
    case False
    then have "nat \<bar>a\<bar> = nat a" by simp
    with l False show ?thesis by (simp add: BigInt_toString_def)
  qed
qed

text \<open>
  A bigint of \<open>B\<close> bits has at most \<open>2 (B div 5 + 1)\<close> decimal digits, since
  \<open>2^5 < 10^2\<close>. So an engine whose strings have room for that many code units and
  three more never meets the limit of its strings in \<open>formatAtomicAmount\<close>: the
  call is within the limits as soon as its bigints are. \<open>node_engine\<close> is such an
  engine.
\<close>

lemma pow2_below_pow10: "(2::nat) ^ B < 10 ^ (2 * (B div 5 + 1))"
proof -
  define k where "k = B div 5 + 1"
  have k: "0 < k" by (simp add: k_def)
  have "B < 5 * k" by (simp add: k_def)
  then have "(2::nat) ^ B < 2 ^ (5 * k)" by (intro power_strict_increasing) simp_all
  also have "\<dots> = (2 ^ 5) ^ k" by (rule power_mult)
  also have "\<dots> = 32 ^ k" by simp
  also have "\<dots> < 100 ^ k" using k by (intro power_strict_mono) simp_all
  also have "\<dots> = (10 ^ 2) ^ k" by simp
  also have "\<dots> = 10 ^ (2 * k)" by (rule power_mult [symmetric])
  finally show ?thesis unfolding k_def .
qed

lemma nat_digits_div_pow: "10 ^ k \<le> n \<Longrightarrow> length (nat_digits (n div 10 ^ k)) + k = length (nat_digits n)"
proof (induction k arbitrary: n)
  case 0
  then show ?case by simp
next
  case (Suc k)
  then have n: "10 * 10 ^ k \<le> n" by simp
  then have "10 \<le> n" using one_le_power [of "10::nat" k] by (simp add: order_trans [rotated])
  then have "\<not> n < 10" by simp
  then have l: "length (nat_digits n) = length (nat_digits (n div 10)) + 1"
    by (subst nat_digits.simps) simp
  from n have "10 ^ k \<le> n div 10" by (simp add: less_eq_div_iff_mult_less_eq mult.commute)
  from Suc.IH [OF this] have "length (nat_digits (n div 10 div 10 ^ k)) + k = length (nat_digits (n div 10))" .
  moreover have "n div 10 ^ Suc k = n div 10 div 10 ^ k" by (simp add: div_mult2_eq)
  ultimately show ?case using l by simp
qed

lemma formatAtomic_spec_length:
  assumes d: "0 < d"
  shows "length (formatAtomic_spec a d) \<le> max (length (nat_digits (nat \<bar>a\<bar>))) (nat d + 1) + 2"
proof -
  define n where "n = nat \<bar>a\<bar>"
  define k where "k = nat d"
  have k: "0 < k" using d by (simp add: k_def)
  have "n mod 10 ^ k < 10 ^ k" by simp
  then have "length (nat_digits (n mod 10 ^ k)) \<le> k" using k by (rule nat_digits_length)
  then have f: "length (fraction_digits (n mod 10 ^ k) k) \<le> k" by (rule fraction_digits_length)
  have q: "length (nat_digits (n div 10 ^ k)) + k \<le> max (length (nat_digits n)) (k + 1)"
  proof (cases "n < 10 ^ k")
    case True
    then have "n div 10 ^ k = 0" by simp
    then show ?thesis by (simp add: nat_digits_small)
  next
    case False
    then have "10 ^ k \<le> n" by simp
    from nat_digits_div_pow [OF this] show ?thesis by simp
  qed
  have "length (formatAtomic_spec a d) \<le>
      1 + length (nat_digits (n div 10 ^ k)) + 1 + length (fraction_digits (n mod 10 ^ k) k)"
    unfolding formatAtomic_spec_positive [OF d] n_def [symmetric] k_def [symmetric] by simp
  with f q show ?thesis unfolding n_def [symmetric] k_def [symmetric] by linarith
qed

lemma within_limits_fits:
  assumes a: "bigint_fits E amount" and p: "0 < d \<longrightarrow> bigint_fits E (10 ^ nat d)"
    and room: "2 * (max_bigint_bits E div 5 + 1) + 3 \<le> string_limit E"
  shows "within_limits E amount d"
proof -
  define B where "B = max_bigint_bits E"
  define N where "N = 2 * (B div 5 + 1)"
  have N: "0 < N" by (simp add: N_def)
  have two: "(2::nat) ^ B < 10 ^ N" unfolding N_def by (rule pow2_below_pow10)
  have "nat \<bar>amount\<bar> < 2 ^ B" using a by (simp add: bigint_fits_def B_def nat_less_iff)
  then have n: "nat \<bar>amount\<bar> < 10 ^ N" using two by (rule less_trans)
  then have digits: "length (nat_digits (nat \<bar>amount\<bar>)) \<le> N" using N by (rule nat_digits_length)
  from room have lim: "N + 3 \<le> string_limit E" by (simp add: N_def B_def)
  show ?thesis
  proof (cases "d \<le> 0")
    case True
    from n have "\<bar>amount\<bar> < 10 ^ N" by (simp add: nat_less_iff)
    then have "length (BigInt_toString amount) \<le> N + 1" using N by (rule toString_length)
    with lim have "length (BigInt_toString amount) \<le> string_limit E" by simp
    with True show ?thesis by (simp add: within_limits_def formatAtomic_spec_def)
  next
    case False
    then have dpos: "0 < d" by simp
    with p have fits: "bigint_fits E (10 ^ nat d)" by simp
    then have "int (10 ^ nat d) < int (2 ^ B)" by (simp add: bigint_fits_def B_def)
    then have "(10::nat) ^ nat d < 2 ^ B" by (simp only: of_nat_less_iff)
    then have "(10::nat) ^ nat d < 10 ^ N" using two by (rule less_trans)
    then have k: "nat d < N" by simp
    have "length (formatAtomic_spec amount d) \<le> max (length (nat_digits (nat \<bar>amount\<bar>))) (nat d + 1) + 2"
      using dpos by (rule formatAtomic_spec_length)
    with digits k have "length (formatAtomic_spec amount d) \<le> N + 2" by simp
    with lim have total: "length (formatAtomic_spec amount d) \<le> string_limit E" by simp
    from k lim have "nat d \<le> string_limit E" by simp
    with fits total show ?thesis by (simp add: within_limits_def)
  qed
qed

lemma node_engine_room:
  "2 * (max_bigint_bits node_engine div 5 + 1) + 3 \<le> string_limit node_engine"
  by (simp add: string_limit_node) (simp add: node_engine_def)

lemma safeParseAtomic_examples:
  "safeParseAtomic fin (JString ''abc'') = Inr None"
  "safeParseAtomic fin (JString ''1.5'') = Inr None"
  "safeParseAtomic fin (JString ''1e3'') = Inr None"
  "safeParseAtomic fin (JString ''12px'') = Inr None"
  "safeParseAtomic fin (JString ''-'') = Inr None"
  "safeParseAtomic fin (JString '' 123 '') = Inr (Some 123)"
  by (simp_all add: safeParseAtomic_string trim_def is_whitespace_def StringToBigInt_def
      parse_signed_def parse_radix_def digit_of_def)

text \<open>Signed, zero-led, hexadecimal, octal and binary literals are read as \<open>BigInt\<close> reads them.\<close>

lemma safeParseAtomic_literals:
  "safeParseAtomic fin (JString ''+5'') = Inr (Some 5)"
  "safeParseAtomic fin (JString ''-42'') = Inr (Some (- 42))"
  "safeParseAtomic fin (JString ''007'') = Inr (Some 7)"
  "safeParseAtomic fin (JString ''0x1F'') = Inr (Some 31)"
  "safeParseAtomic fin (JString ''0o17'') = Inr (Some 15)"
  "safeParseAtomic fin (JString ''0b101'') = Inr (Some 5)"
  "safeParseAtomic fin (JString ''0x'') = Inr None"
  by (simp_all add: safeParseAtomic_string trim_def is_whitespace_def StringToBigInt_def
      parse_signed_def parse_radix_def digit_of_def)

section \<open>Claims on the amount codec\<close>

text \<open>
  C1, as stated for every decimals, fails in two ways. The decimals \<open>2.5\<close> are
  positive and no integer, and \<open>BigInt(decimals)\<close> raises a RangeError. The decimals
  \<open>1e10\<close> are an integer, and the power \<open>10^decimals\<close> is longer than a bigint of
  the engine may be: \<open>**\<close> raises a RangeError. In both the call does not return.
\<close>

theorem formatAtomicAmount_counterexample:
  "\<not> number_le (Finite (5 / 2)) (Finite 0)
   \<and> formatAtomicAmount node_engine 1234567 (Finite (5 / 2)) = Inl RangeError
   \<and> \<not> number_le (Finite 10000000000) (Finite 0)
   \<and> formatAtomicAmount node_engine 1234567 (Finite 10000000000) = Inl RangeError"
proof -
  have "\<lfloor>5 / 2 :: rat\<rfloor> = 2" by (rule floor_unique) simp_all
  then have a: "formatAtomicAmount node_engine 1234567 (Finite (5 / 2)) = Inl RangeError"
    by (simp add: formatAtomicAmount_def)
  have big: "\<not> bigint_fits node_engine (10 ^ nat 10000000000)"
    by (rule bigint_fits_beyond) (simp add: node_engine_def)
  have "formatAtomicAmount node_engine 1234567 (Finite (of_int 10000000000)) = Inl RangeError"
    by (rule formatAtomicAmount_power [OF _ big]) simp
  then have b: "formatAtomicAmount node_engine 1234567 (Finite 10000000000) = Inl RangeError"
    by simp
  show ?thesis using a b by simp
qed

text \<open>
  C1, amended. For every amount and every decimals that is \<open><= 0\<close> or an integer
  whose power \<open>10^decimals\<close> is no longer than a bigint of the engine may be,
  \<open>formatAtomicAmount(amount, decimals)\<close> returns the integer as it is when
  \<open>decimals <= 0\<close>; for a positive integer \<open>d\<close> it returns the quotient of \<open>|amount|\<close>
  by \<open>10^d\<close>, followed, when the remainder is not zero, by a point and the remainder
  zero-padded to \<open>d\<close> digits with trailing zeros stripped, with one leading minus
  for a negative amount. The stripped fraction is empty exactly when the remainder is
  zero. The call raises a RangeError on a positive decimals that is no integer, and
  on a positive integer whose power of ten is longer than a bigint may be. The
  theorem states the result within the limits of the engine, which are that of its
  bigints and that of its strings; on an engine whose strings have room for the
  digits of its longest bigint, as on \<open>node_engine\<close>, a call on a bigint of the
  engine is within the limits as soon as the power of ten is. The four examples of
  the specification hold on \<open>node_engine\<close>.
\<close>

theorem formatAtomicAmount_renders:
  "(number_le n (Finite 0) \<and> length (BigInt_toString amount) \<le> string_limit E \<longrightarrow>
       formatAtomicAmount E amount n = Inr (BigInt_toString amount))
   \<and> (within_limits E amount d \<longrightarrow>
         formatAtomicAmount E amount (Finite (of_int d)) = Inr (formatAtomic_spec amount d))
   \<and> ((fraction_digits r k = []) = (r = 0))
   \<and> (\<not> number_le n (Finite 0) \<and> (\<forall>d. n \<noteq> Finite (of_int d)) \<longrightarrow>
         formatAtomicAmount E amount n = Inl RangeError)
   \<and> (0 < d \<and> \<not> bigint_fits E (10 ^ nat d) \<longrightarrow>
         formatAtomicAmount E amount (Finite (of_int d)) = Inl RangeError)
   \<and> (bigint_fits E amount \<and> (0 < d \<longrightarrow> bigint_fits E (10 ^ nat d))
        \<and> 2 * (max_bigint_bits E div 5 + 1) + 3 \<le> string_limit E \<longrightarrow> within_limits E amount d)
   \<and> 2 * (max_bigint_bits node_engine div 5 + 1) + 3 \<le> string_limit node_engine
   \<and> formatAtomicAmount node_engine 1234567 (Finite 6) = Inr ''1.234567''
   \<and> formatAtomicAmount node_engine 1000000 (Finite 6) = Inr ''1''
   \<and> formatAtomicAmount node_engine 0 (Finite 6) = Inr ''0''
   \<and> formatAtomicAmount node_engine (- 500000) (Finite 6) = Inr ''-0.5''"
proof -
  have a: "number_le n (Finite 0) \<and> length (BigInt_toString amount) \<le> string_limit E \<longrightarrow>
       formatAtomicAmount E amount n = Inr (BigInt_toString amount)"
    by (simp add: formatAtomicAmount_nonpositive new_string_fits)
  have i: "within_limits E amount d \<longrightarrow>
         formatAtomicAmount E amount (Finite (of_int d)) = Inr (formatAtomic_spec amount d)"
    using formatAtomicAmount_integral by blast
  have e: "\<not> number_le n (Finite 0) \<and> (\<forall>d. n \<noteq> Finite (of_int d)) \<longrightarrow>
         formatAtomicAmount E amount n = Inl RangeError"
    using formatAtomicAmount_raises by blast
  have p: "0 < d \<and> \<not> bigint_fits E (10 ^ nat d) \<longrightarrow>
         formatAtomicAmount E amount (Finite (of_int d)) = Inl RangeError"
    using formatAtomicAmount_power by blast
  have w: "bigint_fits E amount \<and> (0 < d \<longrightarrow> bigint_fits E (10 ^ nat d))
        \<and> 2 * (max_bigint_bits E div 5 + 1) + 3 \<le> string_limit E \<longrightarrow> within_limits E amount d"
    using within_limits_fits [of E amount d] by blast
  show ?thesis
    by (intro conjI a i e p w node_engine_room fraction_digits_empty formatAtomicAmount_examples)
qed

theorem formatAtomicAmount_renders_witness:
  "number_le (Finite (- 2)) (Finite 0)
   \<and> length (BigInt_toString 1234567) \<le> string_limit node_engine
   \<and> formatAtomicAmount node_engine 1234567 (Finite (- 2)) = Inr ''1234567''
   \<and> bigint_fits node_engine 1234567 \<and> bigint_fits node_engine (10 ^ nat 6)
   \<and> within_limits node_engine 1234567 6
   \<and> formatAtomic_spec 1234567 6 = ''1.234567''
   \<and> \<not> number_le PosInfinity (Finite 0)
   \<and> formatAtomicAmount node_engine 1234567 PosInfinity = Inl RangeError"
  using formatAtomicAmount_renders [of "Finite (- 2)" 1234567 node_engine 6]
    formatAtomicAmount_renders [of PosInfinity 1234567 node_engine 6]
  by (simp add: nat_digits_numeral nat_digits_small digit_char_def BigInt_toString_def
      string_limit_node formatAtomicAmount_examples bigint_fits_node)

text \<open>
  C2, as stated, fails: \<open>1234567\<close> with six decimals formats as \<open>1.234567\<close>, which
  \<open>safeParseAtomic\<close> does not read (\<open>BigInt\<close> takes no decimal point): the result is
  null. And with the decimals \<open>1e10\<close>, and with the decimals \<open>2.5\<close>, no string is
  produced: the call raises.
\<close>

theorem roundtrip_counterexample:
  "formatAtomicAmount node_engine 1234567 (Finite 6) = Inr ''1.234567''
   \<and> safeParseAtomic decimal_rendering (JString ''1.234567'') = Inr None
   \<and> format_then_parse decimal_rendering node_engine 1234567 (Finite 6) = Inr None
   \<and> format_then_parse decimal_rendering node_engine 0 (Finite 10000000000) = Inl RangeError
   \<and> format_then_parse decimal_rendering node_engine 0 (Finite (5 / 2)) = Inl RangeError"
proof -
  have "\<lfloor>5 / 2 :: rat\<rfloor> = 2" by (rule floor_unique) simp_all
  then have c: "formatAtomicAmount node_engine 0 (Finite (5 / 2)) = Inl RangeError"
    by (simp add: formatAtomicAmount_def)
  have "trim ''1.234567'' = ''1.234567''" by (rule trim_id) (simp_all add: is_whitespace_def)
  then have a: "safeParseAtomic decimal_rendering (JString ''1.234567'') = Inr None"
    by (intro safeParseAtomic_malformed [of "CHR ''.''"]) (simp_all add: digit_of_def)
  have big: "\<not> bigint_fits node_engine (10 ^ nat 10000000000)"
    by (rule bigint_fits_beyond) (simp add: node_engine_def)
  have "formatAtomicAmount node_engine 0 (Finite (of_int 10000000000)) = Inl RangeError"
    by (rule formatAtomicAmount_power [OF _ big]) simp
  then have b: "formatAtomicAmount node_engine 0 (Finite 10000000000) = Inl RangeError"
    by simp
  show ?thesis using a b c by (simp add: format_then_parse_def formatAtomicAmount_examples)
qed

text \<open>
  C2, amended. For a non-negative amount and a non-negative integer \<open>d\<close> of
  decimals, within the limits of the engine (so that \<open>formatAtomicAmount\<close> returns
  a string): when \<open>10^d\<close> divides the amount, \<open>safeParseAtomic\<close> of the formatted
  string is the amount divided by \<open>10^d\<close>, and scaling that by \<open>10^d\<close> gives the
  amount back; otherwise the formatted string has a fractional part (it holds a
  point) and \<open>safeParseAtomic\<close> returns null.
\<close>

theorem roundtrip_whole_amounts:
  assumes "0 \<le> amount" and "0 \<le> d" and "within_limits E amount d"
  shows "formatAtomicAmount E amount (Finite (of_int d)) = Inr (formatAtomic_spec amount d)
         \<and> format_then_parse fin E amount (Finite (of_int d)) =
             (if 10 ^ nat d dvd amount then Inr (Some (amount div 10 ^ nat d)) else Inr None)
         \<and> (10 ^ nat d dvd amount \<longrightarrow> (amount div 10 ^ nat d) * 10 ^ nat d = amount)
         \<and> (\<not> 10 ^ nat d dvd amount \<longrightarrow> CHR ''.'' \<in> set (formatAtomic_spec amount d))"
proof -
  have p: "CHR ''.'' \<in> set (formatAtomic_spec amount d)" if nd: "\<not> 10 ^ nat d dvd amount"
  proof -
    from nd have "d \<noteq> 0" by auto
    with assms(2) have "0 < d" by simp
    with assms(1) show ?thesis using nd by (rule fraction_has_point)
  qed
  show ?thesis
    using assms p by (simp add: format_then_parse_nonneg formatAtomicAmount_integral)
qed

theorem roundtrip_whole_amounts_witness:
  "(0::int) \<le> 3000000 \<and> (0::int) \<le> 6 \<and> within_limits node_engine 3000000 6
   \<and> format_then_parse decimal_rendering node_engine 3000000 (Finite 6) = Inr (Some 3)
   \<and> (3::int) * 10 ^ 6 = 3000000"
  using roundtrip_whole_amounts [of 3000000 6 node_engine decimal_rendering]
    within_limits_fits [of node_engine 3000000 6] node_engine_room
  by (simp add: bigint_fits_node)

text \<open>
  C8. \<open>safeParseAtomic\<close> returns null, and does not raise, on the empty string, on
  the non-finite numbers and on a malformed numeric string (any string whose trimmed
  text has a character that is neither a digit of some radix, nor a radix letter, nor
  a sign; and the examples); it returns the integer itself for a bigint and for the
  decimal text of any integer; it truncates a finite number toward zero.
\<close>

theorem safeParseAtomic_results:
  "safeParseAtomic fin (JString []) = Inr None
   \<and> safeParseAtomic fin (JNumber NaN) = Inr None
   \<and> safeParseAtomic fin (JNumber PosInfinity) = Inr None
   \<and> safeParseAtomic fin (JNumber NegInfinity) = Inr None
   \<and> (c \<in> set (trim s) \<and> digit_of c = None \<and> c \<notin> set ''xXoO+-''
        \<longrightarrow> safeParseAtomic fin (JString s) = Inr None)
   \<and> safeParseAtomic fin (JString ''abc'') = Inr None
   \<and> safeParseAtomic fin (JString ''1.5'') = Inr None
   \<and> safeParseAtomic fin (JString ''1e3'') = Inr None
   \<and> safeParseAtomic fin (JString ''12px'') = Inr None
   \<and> safeParseAtomic fin (JString ''-'') = Inr None
   \<and> safeParseAtomic fin (JBigInt i) = Inr (Some i)
   \<and> safeParseAtomic fin (JString (BigInt_toString i)) = Inr (Some i)
   \<and> safeParseAtomic fin (JNumber (Finite q)) = Inr (Some (trunc_rat q))
   \<and> \<bar>of_int (trunc_rat q)\<bar> \<le> \<bar>q\<bar> \<and> \<bar>q - of_int (trunc_rat q)\<bar> < 1"
proof -
  have e: "safeParseAtomic fin (JString []) = Inr None"
    by (simp add: safeParseAtomic_string trim_def)
  have b: "safeParseAtomic fin (JBigInt i) = Inr (Some i)"
    by (simp add: safeParseAtomic_def safeParseAtomic_try_def parse_text_def)
  have m: "c \<in> set (trim s) \<and> digit_of c = None \<and> c \<notin> set ''xXoO+-''
        \<longrightarrow> safeParseAtomic fin (JString s) = Inr None"
    using safeParseAtomic_malformed by blast
  show ?thesis
    by (intro conjI e b m safeParseAtomic_nonfinite safeParseAtomic_examples
        safeParseAtomic_toString safeParseAtomic_finite trunc_rat_toward_zero)
qed

theorem safeParseAtomic_results_witness:
  "CHR ''.'' \<in> set (trim ''1.5'') \<and> digit_of CHR ''.'' = None \<and> CHR ''.'' \<notin> set ''xXoO+-''
   \<and> safeParseAtomic decimal_rendering (JString ''1.5'') = Inr None"
  using safeParseAtomic_results [of decimal_rendering "CHR ''.''" "''1.5''"]
  by (simp add: trim_def is_whitespace_def digit_of_def)

text \<open>
  C9. \<open>safeParseAtomic\<close> returns null for null, for undefined and for a string of
  white space only; a string is trimmed first, so that \<open>" 123 "\<close> is 123; and for
  every input the call returns (it never raises).
\<close>

theorem safeParseAtomic_total:
  "safeParseAtomic fin JNull = Inr None
   \<and> safeParseAtomic fin JUndefined = Inr None
   \<and> ((\<forall>c\<in>set s. is_whitespace c) \<longrightarrow> safeParseAtomic fin (JString s) = Inr None)
   \<and> safeParseAtomic fin (JString s) = safeParseAtomic fin (JString (trim s))
   \<and> safeParseAtomic fin (JString '' 123 '') = Inr (Some 123)
   \<and> (\<exists>r. safeParseAtomic fin raw = Inr r)"
proof -
  have n: "safeParseAtomic fin JNull = Inr None" "safeParseAtomic fin JUndefined = Inr None"
    by (simp_all add: safeParseAtomic_def)
  have w: "(\<forall>c\<in>set s. is_whitespace c) \<longrightarrow> safeParseAtomic fin (JString s) = Inr None"
    using safeParseAtomic_blank by blast
  show ?thesis
    by (intro conjI n w safeParseAtomic_trimmed safeParseAtomic_examples safeParseAtomic_returns)
qed

theorem safeParseAtomic_total_witness:
  "is_whitespace CHR '' '' \<and> safeParseAtomic decimal_rendering (JString ''   '') = Inr None"
  using safeParseAtomic_total [of decimal_rendering "''   ''"]
  by (simp add: is_whitespace_def)
section \<open>The window and its totals\<close>

lemma prune_dropWhile: "pruneSettlementWindow now w = dropWhile (older_than_cutoff now) w"
  by (induction w) (simp_all add: older_than_cutoff_def)

lemma prune_keeps_new:
  "timestamp e = now \<Longrightarrow> pruneSettlementWindow now (w @ [e]) = pruneSettlementWindow now w @ [e]"
  by (simp add: prune_dropWhile dropWhile_append3 older_than_cutoff_def MS_IN_DAY_def)

lemma prune_drop: "\<exists>k. pruneSettlementWindow now w = drop k w"
  unfolding prune_dropWhile by (metis dropWhile_eq_drop)

lemma prune_sorted_filter:
  "sorted (map timestamp w) \<Longrightarrow>
     pruneSettlementWindow now w = filter (\<lambda>e. now - MS_IN_DAY \<le> timestamp e) w"
proof (induction w)
  case Nil
  then show ?case by simp
next
  case (Cons e es)
  show ?case
  proof (cases "timestamp e < now - MS_IN_DAY")
    case True
    with Cons show ?thesis by simp
  next
    case False
    with Cons.prems have "\<forall>x\<in>set es. now - MS_IN_DAY \<le> timestamp x" by auto
    then have "filter (\<lambda>e. now - MS_IN_DAY \<le> timestamp e) es = es" by simp
    with False show ?thesis by simp
  qed
qed

lemma window_after:
  "snd (recordSettlement fin now a d amount w) =
     pruneSettlementWindow now w @ [\<lparr>asset = a, decimals = d, amountAtomic = amount, timestamp = now\<rparr>]"
  by (simp add: recordSettlement_def Let_def prune_keeps_new)

lemma summary_after:
  "fst (recordSettlement fin now a d amount w) =
     \<lparr>totals = foldl (add_to_totals fin) [] (snd (recordSettlement fin now a d amount w)),
      count = length (snd (recordSettlement fin now a d amount w))\<rparr>"
  by (simp add: recordSettlement_def Let_def)

lemma split_at_last:
  assumes "c \<notin> set s" "c \<notin> set s'" "a @ c # s = a' @ c # s'"
  shows "a = a' \<and> s = s'"
proof -
  have "rev s @ c # rev a = rev s' @ c # rev a'"
    using assms(3) by (metis rev.simps(2) rev_append append.assoc append_Cons append_Nil)
  then have "takeWhile (\<lambda>x. x \<noteq> c) (rev s @ c # rev a) = takeWhile (\<lambda>x. x \<noteq> c) (rev s' @ c # rev a')"
    by simp
  moreover have "takeWhile (\<lambda>x. x \<noteq> c) (rev s) = rev s" "takeWhile (\<lambda>x. x \<noteq> c) (rev s') = rev s'"
    using assms(1,2) by (auto simp: takeWhile_eq_all_conv)
  ultimately have "rev s = rev s'" by (simp add: takeWhile_tail)
  then show ?thesis using assms(3) by simp
qed

lemma key_injective:
  assumes "CHR ''|'' \<notin> set (Number_toString fin (decimals e))"
    and "CHR ''|'' \<notin> set (Number_toString fin (decimals e'))"
    and "Number_toString fin (decimals e) = Number_toString fin (decimals e') \<Longrightarrow> decimals e = decimals e'"
    and "settlement_key fin e = settlement_key fin e'"
  shows "asset e = asset e' \<and> decimals e = decimals e'"
proof -
  from assms(4) have "asset e @ CHR ''|'' # Number_toString fin (decimals e)
      = asset e' @ CHR ''|'' # Number_toString fin (decimals e')"
    by (simp add: settlement_key_def)
  from split_at_last [OF assms(1,2) this] assms(3) show ?thesis by simp
qed

lemma separates_snoc: "rendering_separates fin (p @ [x]) \<Longrightarrow> rendering_separates fin p"
  by (simp add: rendering_separates_def)

lemma key_injective_in:
  assumes "rendering_separates fin w" "e \<in> set w" "e' \<in> set w"
    and "settlement_key fin e = settlement_key fin e'"
  shows "asset e = asset e' \<and> decimals e = decimals e'"
  using assms by (intro key_injective [of fin e e']) (auto simp: rendering_separates_def)

lemma same_pair_same_key:
  "asset e = asset e' \<Longrightarrow> decimals e = decimals e' \<Longrightarrow> settlement_key fin e = settlement_key fin e'"
  by (simp add: settlement_key_def)

lemma group_total_snoc:
  "group_total (p @ [x]) a d =
     group_total p a d + (if asset x = a \<and> decimals x = d then amountAtomic x else 0)"
  by (simp add: group_total_def)

lemma group_total_none:
  "\<forall>e\<in>set p. \<not> (asset e = a \<and> decimals e = d) \<Longrightarrow> group_total p a d = 0"
  by (induction p) (auto simp: group_total_def)

lemma add_to_totals_new:
  assumes m: "totals_match fin T p" and n: "map_of T (settlement_key fin x) = None"
  shows "totals_match fin (add_to_totals fin T x) (p @ [x])"
proof -
  let ?k = "settlement_key fin x"
  let ?v = "\<lparr>asset = asset x, decimals = decimals x, amountAtomic = amountAtomic x\<rparr>"
  have T': "add_to_totals fin T x = T @ [(?k, ?v)]"
    using n by (simp add: add_to_totals_def)
  from n have fresh: "?k \<notin> fst ` set T" by (simp add: map_of_eq_None_iff)
  from m have keys: "fst ` set T = settlement_key fin ` set p" by (simp add: totals_match_def)
  have nokey: "\<forall>e\<in>set p. settlement_key fin e \<noteq> ?k"
    using fresh unfolding keys by (metis image_eqI)
  then have nopair: "\<forall>e\<in>set p. \<not> (asset e = asset x \<and> decimals e = decimals x)"
    using same_pair_same_key by blast
  have d: "distinct (map fst (T @ [(?k, ?v)]))"
    using m fresh by (simp add: totals_match_def)
  have k: "fst ` set (T @ [(?k, ?v)]) = settlement_key fin ` set (p @ [x])"
    using m by (auto simp: totals_match_def)
  have v: "map_of (T @ [(?k, ?v)]) (settlement_key fin e) =
             Some \<lparr>asset = asset e, decimals = decimals e,
                   amountAtomic = group_total (p @ [x]) (asset e) (decimals e)\<rparr>"
    if e: "e \<in> set (p @ [x])" for e
  proof (cases "e \<in> set p")
    case True
    with nopair have "\<not> (asset x = asset e \<and> decimals x = decimals e)" by auto
    then have "group_total (p @ [x]) (asset e) (decimals e) = group_total p (asset e) (decimals e)"
      by (auto simp: group_total_snoc)
    moreover have "map_of T (settlement_key fin e) =
        Some \<lparr>asset = asset e, decimals = decimals e,
              amountAtomic = group_total p (asset e) (decimals e)\<rparr>"
      using m True by (simp add: totals_match_def)
    ultimately show ?thesis by (simp add: map_of_append)
  next
    case False
    with e have ex: "e = x" by simp
    have "group_total p (asset x) (decimals x) = 0" using nopair by (rule group_total_none)
    then show ?thesis using n by (simp add: ex map_of_append map_add_def group_total_snoc)
  qed
  show ?thesis unfolding T' totals_match_def using d k v by blast
qed

lemma add_to_totals_existing:
  assumes m: "totals_match fin T p" and s: "rendering_separates fin (p @ [x])"
    and f: "map_of T (settlement_key fin x) = Some existing"
  shows "totals_match fin (add_to_totals fin T x) (p @ [x])"
proof -
  let ?k = "settlement_key fin x"
  let ?v = "existing\<lparr>amountAtomic := amountAtomic existing + amountAtomic x\<rparr>"
  have T': "add_to_totals fin T x = AList.update ?k ?v T"
    using f by (simp add: add_to_totals_def)
  from f have "?k \<in> fst ` set T" by (metis map_of_eq_None_iff option.distinct(1))
  with m obtain e0 where e0: "e0 \<in> set p" "settlement_key fin e0 = ?k"
    by (auto simp: totals_match_def)
  then have pair0: "asset e0 = asset x \<and> decimals e0 = decimals x"
    using key_injective_in [OF s, of e0 x] by simp
  have "map_of T ?k = Some \<lparr>asset = asset e0, decimals = decimals e0,
      amountAtomic = group_total p (asset e0) (decimals e0)\<rparr>"
    using m e0 by (auto simp: totals_match_def)
  with f pair0 have existing: "existing = \<lparr>asset = asset x, decimals = decimals x,
      amountAtomic = group_total p (asset x) (decimals x)\<rparr>" by simp
  have d: "distinct (map fst (AList.update ?k ?v T))"
    using m by (simp add: totals_match_def distinct_update)
  have k: "fst ` set (AList.update ?k ?v T) = settlement_key fin ` set (p @ [x])"
    using m \<open>?k \<in> fst ` set T\<close> by (auto simp: totals_match_def dom_update)
  have v: "map_of (AList.update ?k ?v T) (settlement_key fin e) =
             Some \<lparr>asset = asset e, decimals = decimals e,
                   amountAtomic = group_total (p @ [x]) (asset e) (decimals e)\<rparr>"
    if e: "e \<in> set (p @ [x])" for e
  proof (cases "settlement_key fin e = ?k")
    case True
    then have "asset e = asset x \<and> decimals e = decimals x"
      using key_injective_in [OF s e, of x] by simp
    then show ?thesis using True by (simp add: update_conv' existing group_total_snoc)
  next
    case False
    then have ne: "\<not> (asset x = asset e \<and> decimals x = decimals e)"
      using same_pair_same_key by metis
    from False e have "e \<in> set p" by auto
    then have "map_of T (settlement_key fin e) =
        Some \<lparr>asset = asset e, decimals = decimals e,
              amountAtomic = group_total p (asset e) (decimals e)\<rparr>"
      using m by (simp add: totals_match_def)
    then show ?thesis using False ne by (auto simp: update_conv' group_total_snoc)
  qed
  show ?thesis unfolding T' totals_match_def using d k v by blast
qed

lemma totals_invariant:
  "rendering_separates fin p \<Longrightarrow> totals_match fin (foldl (add_to_totals fin) [] p) p"
proof (induction p rule: rev_induct)
  case Nil
  then show ?case by (simp add: totals_match_def)
next
  case (snoc x p)
  then have m: "totals_match fin (foldl (add_to_totals fin) [] p) p"
    using separates_snoc by blast
  show ?case
  proof (cases "map_of (foldl (add_to_totals fin) [] p) (settlement_key fin x)")
    case None
    with m show ?thesis by (simp add: add_to_totals_new)
  next
    case (Some existing)
    with m snoc.prems show ?thesis by (simp add: add_to_totals_existing)
  qed
qed

lemma step_window:
  assumes s: "sorted (map timestamp w)" and b: "\<forall>e\<in>set w. timestamp e \<le> now"
  shows "snd (recordSettlement fin now a d amount w) =
           filter (\<lambda>e. now - MS_IN_DAY \<le> timestamp e)
             (w @ [\<lparr>asset = a, decimals = d, amountAtomic = amount, timestamp = now\<rparr>])"
    and "\<forall>e\<in>set (snd (recordSettlement fin now a d amount w)). now - MS_IN_DAY \<le> timestamp e"
    and "sorted (map timestamp (snd (recordSettlement fin now a d amount w)))"
    and "\<forall>e\<in>set (snd (recordSettlement fin now a d amount w)). timestamp e \<le> now"
proof -
  let ?new = "\<lparr>asset = a, decimals = d, amountAtomic = amount, timestamp = now\<rparr>"
  have w': "snd (recordSettlement fin now a d amount w) =
      filter (\<lambda>e. now - MS_IN_DAY \<le> timestamp e) w @ [?new]"
    using s by (simp add: window_after prune_sorted_filter)
  show "snd (recordSettlement fin now a d amount w) =
      filter (\<lambda>e. now - MS_IN_DAY \<le> timestamp e) (w @ [?new])"
    unfolding w' by (simp add: MS_IN_DAY_def)
  show "\<forall>e\<in>set (snd (recordSettlement fin now a d amount w)). now - MS_IN_DAY \<le> timestamp e"
    unfolding w' by (auto simp: MS_IN_DAY_def)
  show "sorted (map timestamp (snd (recordSettlement fin now a d amount w)))"
    unfolding w' using s b by (auto simp: sorted_append intro: sorted_filter)
  show "\<forall>e\<in>set (snd (recordSettlement fin now a d amount w)). timestamp e \<le> now"
    unfolding w' using b by auto
qed

lemma step_sorted:
  assumes s: "sorted (map timestamp w)"
  shows "snd (recordSettlement fin now a d amount w) =
           filter (\<lambda>e. now - MS_IN_DAY \<le> timestamp e)
             (w @ [\<lparr>asset = a, decimals = d, amountAtomic = amount, timestamp = now\<rparr>])"
    and "\<forall>e\<in>set (snd (recordSettlement fin now a d amount w)). now - MS_IN_DAY \<le> timestamp e"
proof -
  let ?new = "\<lparr>asset = a, decimals = d, amountAtomic = amount, timestamp = now\<rparr>"
  have w': "snd (recordSettlement fin now a d amount w) =
      filter (\<lambda>e. now - MS_IN_DAY \<le> timestamp e) w @ [?new]"
    using s by (simp add: window_after prune_sorted_filter)
  show "snd (recordSettlement fin now a d amount w) =
      filter (\<lambda>e. now - MS_IN_DAY \<le> timestamp e) (w @ [?new])"
    unfolding w' by (simp add: MS_IN_DAY_def)
  show "\<forall>e\<in>set (snd (recordSettlement fin now a d amount w)). now - MS_IN_DAY \<le> timestamp e"
    unfolding w' by (auto simp: MS_IN_DAY_def)
qed

lemma run_invariant:
  assumes "sorted (map timestamp w)" "\<forall>e\<in>set w. \<forall>c\<in>set calls. timestamp e \<le> fst c"
    and "sorted (map fst calls)"
  shows "sorted (map timestamp (recordSettlements fin calls w))
     \<and> (calls \<noteq> [] \<longrightarrow>
          (\<forall>e\<in>set (recordSettlements fin calls w).
              fst (last calls) - MS_IN_DAY \<le> timestamp e \<and> timestamp e \<le> fst (last calls)))"
  using assms
proof (induction calls arbitrary: w)
  case Nil
  then show ?case by simp
next
  case (Cons c cs)
  obtain now a d amount where c: "c = (now, a, d, amount)" by (cases c) auto
  let ?w = "snd (recordSettlement fin now a d amount w)"
  have b: "\<forall>e\<in>set w. timestamp e \<le> now" using Cons.prems(2) c by simp
  note st = step_window [OF Cons.prems(1) b, of fin a d amount]
  have up: "\<forall>e\<in>set ?w. \<forall>c'\<in>set cs. timestamp e \<le> fst c'"
  proof (intro ballI)
    fix e c' assume "e \<in> set ?w" "c' \<in> set cs"
    then have "timestamp e \<le> now" "now \<le> fst c'"
      using st(4) Cons.prems(3) c by auto
    then show "timestamp e \<le> fst c'" by simp
  qed
  have sc: "sorted (map fst cs)" using Cons.prems(3) by simp
  note ih = Cons.IH [OF st(3) up sc]
  have r: "recordSettlements fin (c # cs) w = recordSettlements fin cs ?w" by (simp add: c)
  show ?case
  proof (cases "cs = []")
    case True
    have l: "fst (last (c # cs)) = now" using True c by simp
    have eq: "recordSettlements fin (c # cs) w = ?w" using r True by simp
    show ?thesis unfolding l eq using st(2,3,4) by blast
  next
    case False
    then have l: "last (c # cs) = last cs" by simp
    from ih False show ?thesis unfolding r l by blast
  qed
qed

lemma prune_removed_older:
  "w = takeWhile (older_than_cutoff now) w @ pruneSettlementWindow now w"
  by (simp add: prune_dropWhile)

lemma decimal_rendering_digit: "decimal_rendering 6 = ''6''" "decimal_rendering 9 = ''9''"
  by (simp_all add: decimal_rendering_def BigInt_toString_def nat_digits_numeral digit_char_def)

lemmas window_evals = recordSettlement_def MS_IN_DAY_def add_to_totals_def settlement_key_def

text \<open>
  On integer decimals the decimal rendering has the two properties the totals need.
\<close>

lemma toString_injective: "BigInt_toString i = BigInt_toString j \<Longrightarrow> i = j"
  by (metis StringToBigInt_toString option.inject)

lemma toString_no_bar: "CHR ''|'' \<notin> set (BigInt_toString i)"
proof -
  have "c \<noteq> CHR ''|''" if "decimal_digit c" for c
    using that by (auto simp: decimal_digit_def)
  then have "CHR ''|'' \<notin> set (nat_digits k)" for k
    using nat_digits_decimal [of k] by blast
  then show ?thesis by (simp add: BigInt_toString_def)
qed

lemma integral_rendering_separates:
  assumes "\<forall>e\<in>set w. \<exists>k. decimals e = Finite (of_int k)"
  shows "rendering_separates decimal_rendering w"
proof -
  have r: "Number_toString decimal_rendering (Finite (of_int k)) = BigInt_toString k" for k
    by (simp add: decimal_rendering_def)
  show ?thesis
    unfolding rendering_separates_def
  proof (intro conjI ballI impI)
    fix e assume "e \<in> set w"
    with assms obtain k where "decimals e = Finite (of_int k)" by blast
    then show "CHR ''|'' \<notin> set (Number_toString decimal_rendering (decimals e))"
      by (simp only: r toString_no_bar not_False_eq_True)
  next
    fix e e' assume "e \<in> set w" "e' \<in> set w"
      and eq: "Number_toString decimal_rendering (decimals e)
             = Number_toString decimal_rendering (decimals e')"
    with assms obtain k k' where k: "decimals e = Finite (of_int k)" "decimals e' = Finite (of_int k')"
      by blast
    with eq have "BigInt_toString k = BigInt_toString k'" by (simp only: r)
    then have "k = k'" by (rule toString_injective)
    with k show "decimals e = decimals e'" by simp
  qed
qed

section \<open>Claims on the settlement window\<close>

text \<open>
  C3. After a call of \<open>recordSettlement\<close>, the totals hold, for every retained entry,
  under the key of its pair \<open>(asset, decimals)\<close>, that pair and the sum of
  \<open>amountAtomic\<close> over the retained entries of the same pair; the totals have one
  binding for each pair and no other; two retained entries with one asset and
  different decimals have different keys, so they are never merged; the count is the
  number of retained entries. This needs of the rendering of numbers only that it has
  no bar and renders different decimals differently. Three entries of one pair with
  amounts 100, 200 and 300 inside the window give the total 600 and the count 3.
\<close>

theorem recordSettlement_totals:
  assumes "rendering_separates fin (snd (recordSettlement fin now a d amount w))"
  shows "(let R = recordSettlement fin now a d amount w in
          (\<forall>e\<in>set (snd R). map_of (totals (fst R)) (settlement_key fin e) =
              Some \<lparr>asset = asset e, decimals = decimals e,
                    amountAtomic = group_total (snd R) (asset e) (decimals e)\<rparr>)
          \<and> fst ` set (totals (fst R)) = settlement_key fin ` set (snd R)
          \<and> distinct (map fst (totals (fst R)))
          \<and> count (fst R) = length (snd R)
          \<and> (\<forall>e\<in>set (snd R). \<forall>e'\<in>set (snd R).
                asset e = asset e' \<and> decimals e \<noteq> decimals e'
                  \<longrightarrow> settlement_key fin e \<noteq> settlement_key fin e'))
       \<and> fst (recordSettlement fin 2000 ''A'' (Finite 6) 300
               (recordSettlements fin [(0, ''A'', Finite 6, 100), (1000, ''A'', Finite 6, 200)] []))
           = \<lparr>totals = [(''A|'' @ fin 6, \<lparr>asset = ''A'', decimals = Finite 6, amountAtomic = 600\<rparr>)],
              count = 3\<rparr>"
proof -
  let ?R = "recordSettlement fin now a d amount w"
  have m: "totals_match fin (totals (fst ?R)) (snd ?R)"
    using totals_invariant [OF assms] by (simp add: summary_after)
  have c: "count (fst ?R) = length (snd ?R)" by (simp add: summary_after)
  have i: "\<forall>e\<in>set (snd ?R). \<forall>e'\<in>set (snd ?R).
      asset e = asset e' \<and> decimals e \<noteq> decimals e'
        \<longrightarrow> settlement_key fin e \<noteq> settlement_key fin e'"
    using key_injective_in [OF assms] by blast
  have ex: "fst (recordSettlement fin 2000 ''A'' (Finite 6) 300
               (recordSettlements fin [(0, ''A'', Finite 6, 100), (1000, ''A'', Finite 6, 200)] []))
           = \<lparr>totals = [(''A|'' @ fin 6, \<lparr>asset = ''A'', decimals = Finite 6, amountAtomic = 600\<rparr>)],
              count = 3\<rparr>"
    by (simp add: window_evals)
  from m c i ex show ?thesis unfolding Let_def totals_match_def by blast
qed

theorem recordSettlement_totals_witness:
  "rendering_separates decimal_rendering
     (snd (recordSettlement decimal_rendering 1000 ''A'' (Finite 9) 50
        [\<lparr>asset = ''A'', decimals = Finite 6, amountAtomic = 100, timestamp = 0\<rparr>]))
   \<and> map_of (totals (fst (recordSettlement decimal_rendering 1000 ''A'' (Finite 9) 50
        [\<lparr>asset = ''A'', decimals = Finite 6, amountAtomic = 100, timestamp = 0\<rparr>]))) ''A|6''
       = Some \<lparr>asset = ''A'', decimals = Finite 6, amountAtomic = 100\<rparr>
   \<and> map_of (totals (fst (recordSettlement decimal_rendering 1000 ''A'' (Finite 9) 50
        [\<lparr>asset = ''A'', decimals = Finite 6, amountAtomic = 100, timestamp = 0\<rparr>]))) ''A|9''
       = Some \<lparr>asset = ''A'', decimals = Finite 9, amountAtomic = 50\<rparr>"
proof -
  have s: "rendering_separates decimal_rendering
     (snd (recordSettlement decimal_rendering 1000 ''A'' (Finite 9) 50
        [\<lparr>asset = ''A'', decimals = Finite 6, amountAtomic = 100, timestamp = 0\<rparr>]))"
  proof (rule integral_rendering_separates)
    have "\<exists>k. Finite 6 = Finite (rat_of_int k)" "\<exists>k. Finite 9 = Finite (rat_of_int k)"
      by (metis of_int_numeral)+
    then show "\<forall>e\<in>set (snd (recordSettlement decimal_rendering 1000 ''A'' (Finite 9) 50
        [\<lparr>asset = ''A'', decimals = Finite 6, amountAtomic = 100, timestamp = 0\<rparr>])).
          \<exists>k. decimals e = Finite (rat_of_int k)"
      by (simp add: window_evals)
  qed
  from recordSettlement_totals [OF s] s show ?thesis
    by (simp add: window_evals decimal_rendering_digit group_total_def)
qed

text \<open>
  C4, as stated, fails: the loop stops at the first entry that is not older than the
  cutoff, so an older entry behind it stays. After calls at times 1000, 999 and
  86401000 (the clock stepped back one millisecond between the first two), the entry
  of time 999 is retained, and it is older than the cutoff 1000 of the last call.
\<close>

theorem window_bound_counterexample:
  "\<lparr>asset = ''A'', decimals = Finite 6, amountAtomic = 1, timestamp = 999\<rparr>
     \<in> set (recordSettlements decimal_rendering
          [(1000, ''A'', Finite 6, 1), (999, ''A'', Finite 6, 1), (86401000, ''A'', Finite 6, 1)] [])
   \<and> (999::int) < 86401000 - MS_IN_DAY"
  by (simp add: window_evals)

text \<open>
  C4, amended. \<open>recordSettlement\<close> appends the new entry and removes entries from
  the front only, and the totals are computed from what is left. When the window is
  in timestamp order, what is left is exactly the entries of the appended sequence
  with \<open>timestamp >= now - 24h\<close>, so every retained entry satisfies
  \<open>timestamp >= now - 24h\<close>. The window is in timestamp order after any run of
  calls with non-decreasing times, started on the empty window: after such a run
  every retained entry is within 24 hours of the last call.
\<close>

theorem recordSettlement_window:
  "(let new = \<lparr>asset = a, decimals = d, amountAtomic = amount, timestamp = now\<rparr>;
        R = recordSettlement fin now a d amount w in
     (\<exists>k. snd R = drop k (w @ [new]))
     \<and> totals (fst R) = foldl (add_to_totals fin) [] (snd R)
     \<and> (sorted (map timestamp w) \<longrightarrow>
          snd R = filter (\<lambda>e. now - MS_IN_DAY \<le> timestamp e) (w @ [new])
          \<and> (\<forall>e\<in>set (snd R). now - MS_IN_DAY \<le> timestamp e)))
   \<and> (sorted (map fst calls) \<and> calls \<noteq> [] \<longrightarrow>
        sorted (map timestamp (recordSettlements fin calls []))
        \<and> (\<forall>e\<in>set (recordSettlements fin calls []). fst (last calls) - MS_IN_DAY \<le> timestamp e))"
proof -
  let ?new = "\<lparr>asset = a, decimals = d, amountAtomic = amount, timestamp = now\<rparr>"
  let ?R = "recordSettlement fin now a d amount w"
  have "\<exists>k. pruneSettlementWindow now (w @ [?new]) = drop k (w @ [?new])" by (rule prune_drop)
  then have p: "\<exists>k. snd ?R = drop k (w @ [?new])" by (simp add: recordSettlement_def Let_def)
  have t: "totals (fst ?R) = foldl (add_to_totals fin) [] (snd ?R)" by (simp add: summary_after)
  have s: "sorted (map timestamp w) \<longrightarrow>
          snd ?R = filter (\<lambda>e. now - MS_IN_DAY \<le> timestamp e) (w @ [?new])
          \<and> (\<forall>e\<in>set (snd ?R). now - MS_IN_DAY \<le> timestamp e)"
    using step_sorted [of w fin now a d amount] by blast
  have r: "sorted (map fst calls) \<and> calls \<noteq> [] \<longrightarrow>
        sorted (map timestamp (recordSettlements fin calls []))
        \<and> (\<forall>e\<in>set (recordSettlements fin calls []). fst (last calls) - MS_IN_DAY \<le> timestamp e)"
    using run_invariant [of "[]" calls fin] by simp
  from p t s r show ?thesis unfolding Let_def by blast
qed

theorem recordSettlement_window_witness:
  "sorted (map timestamp
      [\<lparr>asset = ''A'', decimals = Finite 6, amountAtomic = 1, timestamp = 0\<rparr>,
       \<lparr>asset = ''A'', decimals = Finite 6, amountAtomic = 2, timestamp = 50000000\<rparr>])
   \<and> snd (recordSettlement decimal_rendering 100000000 ''A'' (Finite 6) 3
      [\<lparr>asset = ''A'', decimals = Finite 6, amountAtomic = 1, timestamp = 0\<rparr>,
       \<lparr>asset = ''A'', decimals = Finite 6, amountAtomic = 2, timestamp = 50000000\<rparr>])
     = [\<lparr>asset = ''A'', decimals = Finite 6, amountAtomic = 2, timestamp = 50000000\<rparr>,
        \<lparr>asset = ''A'', decimals = Finite 6, amountAtomic = 3, timestamp = 100000000\<rparr>]
   \<and> sorted (map fst
      [(0, ''A'', Finite 6, 1), (50000000, ''A'', Finite 6, 2), (100000000::int, ''A'', Finite 6, 3::int)])
   \<and> recordSettlements decimal_rendering
      [(0, ''A'', Finite 6, 1), (50000000, ''A'', Finite 6, 2), (100000000, ''A'', Finite 6, 3)] []
     = [\<lparr>asset = ''A'', decimals = Finite 6, amountAtomic = 2, timestamp = 50000000\<rparr>,
        \<lparr>asset = ''A'', decimals = Finite 6, amountAtomic = 3, timestamp = 100000000\<rparr>]"
  using recordSettlement_window [of "''A''" "Finite 6" 3 100000000 decimal_rendering
      "[\<lparr>asset = ''A'', decimals = Finite 6, amountAtomic = 1, timestamp = 0\<rparr>,
        \<lparr>asset = ''A'', decimals = Finite 6, amountAtomic = 2, timestamp = 50000000\<rparr>]"
      "[(0, ''A'', Finite 6, 1), (50000000, ''A'', Finite 6, 2), (100000000, ''A'', Finite 6, 3)]"]
  by (simp add: MS_IN_DAY_def Let_def recordSettlement_def)

text \<open>
  C10. \<open>recordSettlement\<close> never prunes the entry it has just appended: the window
  it leaves is the pruned old window followed by the new entry, the removed entries
  are a prefix of the old window, each with a timestamp strictly less than
  \<open>now - 24h\<close>, and the returned count is at least 1.
\<close>

theorem recordSettlement_keeps_new:
  "(let new = \<lparr>asset = a, decimals = d, amountAtomic = amount, timestamp = now\<rparr>;
        R = recordSettlement fin now a d amount w in
     1 \<le> count (fst R)
     \<and> count (fst R) = length (snd R)
     \<and> snd R = pruneSettlementWindow now w @ [new]
     \<and> last (snd R) = new
     \<and> w = takeWhile (\<lambda>e. timestamp e < now - MS_IN_DAY) w @ pruneSettlementWindow now w)"
  using prune_removed_older [of w now]
  by (simp add: Let_def summary_after window_after older_than_cutoff_def [abs_def])

section \<open>The resolver and the settle route\<close>

lemma extraDecimals_override: "extraDecimals pr = assetDecimals_override (pr_extra pr)"
  by (simp add: extraDecimals_def assetDecimals_override_def member_def
      split: jsval.splits option.splits)

lemma collect_raises: "collect rs = Inl e \<Longrightarrow> Inl e \<in> set rs"
proof (induction rs rule: collect.induct)
  case (3 x rs)
  then show ?case by (cases "collect rs") simp_all
qed simp_all

lemma js_String_raises: "js_String fin v = Inl e \<Longrightarrow> e = TypeError"
proof (induction fin v rule: js_String.induct)
  case (7 fin xs)
  let ?f = "\<lambda>x. if x = JNull \<or> x = JUndefined then Inr [] else js_String fin x"
  from 7(2) have "collect (map ?f xs) = Inl e" by (cases "collect (map ?f xs)") simp_all
  then have "Inl e \<in> set (map ?f xs)" by (rule collect_raises)
  then obtain x where x: "x \<in> set xs" "?f x = Inl e" by auto
  then have "\<not> (x = JNull \<or> x = JUndefined)" "js_String fin x = Inl e"
    by (auto split: if_splits)
  with 7(1) x(1) show ?case by blast
next
  case (8 fin kvs)
  then show ?case by (simp split: if_splits)
qed simp_all

lemma js_String_primitive: "primitive v \<Longrightarrow> \<exists>s. js_String fin v = Inr s"
  by (cases v) simp_all

lemma resolve_structured:
  assumes "pr_asset pr = JObject kvs" "map_of kvs ''address'' = Some v"
  shows "resolveAssetInfo fin pr =
     (case (if v = JNull \<or> v = JUndefined then Inr ''unknown'' else js_String fin v) of
        Inl e \<Rightarrow> Inl e
      | Inr address \<Rightarrow>
          Inr (address,
               case assetDecimals_override (pr_extra pr) of
                 Some n \<Rightarrow> n
               | None \<Rightarrow> (case map_of kvs ''decimals'' of Some (JNumber n) \<Rightarrow> n | _ \<Rightarrow> Finite 6)))"
  using assms
  by (simp add: resolveAssetInfo_def extraDecimals_override object_with_def member_def
      nullish_or_def DEFAULT_DECIMALS_def Let_def split: option.splits jsval.splits sum.splits)

lemma resolve_plain:
  assumes "pr_asset pr = JString s" "trim s \<noteq> []"
  shows "resolveAssetInfo fin pr = Inr (s, override_or_default (pr_extra pr))"
  using assms
  by (simp add: resolveAssetInfo_def extraDecimals_override object_with_def override_or_default_def
      DEFAULT_DECIMALS_def Let_def split: option.splits)

lemma resolve_unknown:
  assumes "\<forall>kvs. pr_asset pr = JObject kvs \<longrightarrow> map_of kvs ''address'' = None"
    and "\<forall>s. pr_asset pr = JString s \<longrightarrow> trim s = []"
  shows "resolveAssetInfo fin pr = Inr (''unknown'', override_or_default (pr_extra pr))"
  using assms
  by (cases "pr_asset pr")
     (simp_all add: resolveAssetInfo_def extraDecimals_override object_with_def
        override_or_default_def DEFAULT_DECIMALS_def Let_def split: option.splits)

lemma resolve_override:
  assumes "assetDecimals_override (pr_extra pr) = Some n" "resolveAssetInfo fin pr = Inr (a, d)"
  shows "d = n"
  using assms
  by (auto simp: resolveAssetInfo_def extraDecimals_override Let_def
      split: jsval.splits sum.splits if_splits)

lemma resolve_raises:
  assumes "resolveAssetInfo fin pr = Inl e"
  shows "e = TypeError \<and> (\<exists>kvs v. pr_asset pr = JObject kvs \<and> map_of kvs ''address'' = Some v
      \<and> js_String fin v = Inl TypeError)"
proof -
  from assms have o: "object_with (pr_asset pr) ''address''"
    by (auto simp: resolveAssetInfo_def Let_def split: if_splits jsval.splits)
  then obtain kvs v where kv: "pr_asset pr = JObject kvs" "map_of kvs ''address'' = Some v"
    by (auto simp: object_with_def split: jsval.splits)
  let ?address = "if v = JNull \<or> v = JUndefined then Inr ''unknown'' else js_String fin v"
  from assms have "?address = Inl e"
    unfolding resolve_structured [OF kv] by (cases ?address) simp_all
  then have s: "js_String fin v = Inl e" by (simp split: if_splits)
  then have "e = TypeError" by (rule js_String_raises)
  with s kv show ?thesis by blast
qed

subsection \<open>The log line of a settlement\<close>












section \<open>Claims on the resolver and the orchestrator\<close>

text \<open>
  C5, as stated, fails in four ways. The asset \<open>" "\<close> is a non-empty string, and
  the address resolves to \<open>unknown\<close>, not to that string: the string is trimmed
  before the test. The asset \<open>{address: null}\<close> has an address field, which
  stringifies to \<open>null\<close>, and the address resolves to \<open>unknown\<close>. The asset
  \<open>{address: {toString: 1}}\<close> has an address field that \<open>String\<close> cannot
  stringify: the call raises a TypeError and resolves nothing. And the override is
  taken whenever its type is number, well formed or not: with the asset
  \<open>{address: "A", decimals: 2}\<close> and \<open>assetDecimals: 1e999\<close>, which \<open>JSON.parse\<close>
  reads as Infinity, the decimals resolve to Infinity, not to 2.
\<close>

theorem resolveAssetInfo_counterexample:
  "'' '' \<noteq> []
   \<and> resolveAssetInfo decimal_rendering
        \<lparr>pr_network = JString ''solana'', pr_asset = JString '' '',
         pr_maxAmountRequired = JString ''1'', pr_resource = JUndefined, pr_extra = JUndefined\<rparr>
       = Inr (''unknown'', Finite 6)
   \<and> js_String decimal_rendering JNull = Inr ''null''
   \<and> resolveAssetInfo decimal_rendering
        \<lparr>pr_network = JString ''solana'', pr_asset = JObject [(''address'', JNull)],
         pr_maxAmountRequired = JString ''1'', pr_resource = JUndefined, pr_extra = JUndefined\<rparr>
       = Inr (''unknown'', Finite 6)
   \<and> resolveAssetInfo decimal_rendering
        \<lparr>pr_network = JString ''solana'',
         pr_asset = JObject [(''address'', JObject [(''toString'', JNumber (Finite 1))])],
         pr_maxAmountRequired = JString ''1'', pr_resource = JUndefined, pr_extra = JUndefined\<rparr>
       = Inl TypeError
   \<and> \<not> Number_isFinite PosInfinity
   \<and> resolveAssetInfo decimal_rendering
        \<lparr>pr_network = JString ''solana'',
         pr_asset = JObject [(''address'', JString ''A''), (''decimals'', JNumber (Finite 2))],
         pr_maxAmountRequired = JString ''1'', pr_resource = JUndefined,
         pr_extra = JObject [(''assetDecimals'', JNumber PosInfinity)]\<rparr>
       = Inr (''A'', PosInfinity)"
  by (simp add: resolveAssetInfo_def object_with_def member_def nullish_or_def trim_def
      is_whitespace_def extraDecimals_def DEFAULT_DECIMALS_def Let_def)

text \<open>
  C5, amended. If the asset is an object with an address field, the address is
  \<open>unknown\<close> when that field is null or undefined and the field stringified
  otherwise, and the decimals are the override \<open>extra.assetDecimals\<close> when that is a
  number (any value of type number), else the object's own decimals field when that
  is a number, else 6; where \<open>String\<close> raises on the field, the call raises that
  TypeError: it does on an object with an own \<open>toString\<close> property and on an array
  that holds one, and on no primitive value. Else if the asset is a string that is
  not empty once trimmed, the address is that string (untrimmed) and the decimals
  are the override, else 6. Else the address is \<open>unknown\<close> and the decimals are the
  override, else 6. A call raises in the first branch only. The override wins in
  every branch: with asset \<open>{address: "A", decimals: 2}\<close> and \<open>assetDecimals: 9\<close>
  the decimals are 9.
\<close>

theorem resolveAssetInfo_precedence:
  "(pr_asset pr = JObject kvs \<and> map_of kvs ''address'' = Some v \<longrightarrow>
      resolveAssetInfo fin pr =
        (case (if v = JNull \<or> v = JUndefined then Inr ''unknown'' else js_String fin v) of
           Inl e \<Rightarrow> Inl e
         | Inr address \<Rightarrow>
             Inr (address,
                  case assetDecimals_override (pr_extra pr) of
                    Some n \<Rightarrow> n
                  | None \<Rightarrow> (case map_of kvs ''decimals'' of Some (JNumber n) \<Rightarrow> n | _ \<Rightarrow> Finite 6))))
   \<and> (primitive v \<longrightarrow> (\<exists>t. js_String fin v = Inr t))
   \<and> js_String fin (JObject ps) =
        (if map_of ps ''toString'' \<noteq> None then Inl TypeError else Inr ''[object Object]'')
   \<and> (js_String fin v = Inl e \<longrightarrow> e = TypeError)
   \<and> (resolveAssetInfo fin pr = Inl e \<longrightarrow>
        e = TypeError \<and> (\<exists>kvs v. pr_asset pr = JObject kvs \<and> map_of kvs ''address'' = Some v
                            \<and> js_String fin v = Inl TypeError))
   \<and> (pr_asset pr = JString s \<and> trim s \<noteq> [] \<longrightarrow>
        resolveAssetInfo fin pr = Inr (s, override_or_default (pr_extra pr)))
   \<and> ((\<forall>kvs. pr_asset pr = JObject kvs \<longrightarrow> map_of kvs ''address'' = None)
        \<and> (\<forall>s. pr_asset pr = JString s \<longrightarrow> trim s = []) \<longrightarrow>
        resolveAssetInfo fin pr = Inr (''unknown'', override_or_default (pr_extra pr)))
   \<and> (assetDecimals_override (pr_extra pr) = Some n \<and> resolveAssetInfo fin pr = Inr (a, d)
        \<longrightarrow> d = n)
   \<and> resolveAssetInfo fin
        \<lparr>pr_network = net, pr_asset = JObject [(''address'', JString ''A''), (''decimals'', JNumber (Finite 2))],
         pr_maxAmountRequired = raw, pr_resource = res,
         pr_extra = JObject [(''assetDecimals'', JNumber (Finite 9))]\<rparr>
       = Inr (''A'', Finite 9)"
proof -
  have ex: "resolveAssetInfo fin
        \<lparr>pr_network = net, pr_asset = JObject [(''address'', JString ''A''), (''decimals'', JNumber (Finite 2))],
         pr_maxAmountRequired = raw, pr_resource = res,
         pr_extra = JObject [(''assetDecimals'', JNumber (Finite 9))]\<rparr>
       = Inr (''A'', Finite 9)"
    by (simp add: resolveAssetInfo_def object_with_def member_def nullish_or_def extraDecimals_def
        Let_def)
  have o: "js_String fin (JObject ps) =
        (if map_of ps ''toString'' \<noteq> None then Inl TypeError else Inr ''[object Object]'')"
    by simp
  have p: "primitive v \<longrightarrow> (\<exists>t. js_String fin v = Inr t)"
    using js_String_primitive [of v fin] by blast
  have t: "js_String fin v = Inl e \<longrightarrow> e = TypeError"
    using js_String_raises [of fin v e] by blast
  have r: "resolveAssetInfo fin pr = Inl e \<longrightarrow>
        e = TypeError \<and> (\<exists>kvs v. pr_asset pr = JObject kvs \<and> map_of kvs ''address'' = Some v
                            \<and> js_String fin v = Inl TypeError)"
    using resolve_raises [of fin pr e] by blast
  have s: "pr_asset pr = JObject kvs \<and> map_of kvs ''address'' = Some v \<longrightarrow>
      resolveAssetInfo fin pr =
        (case (if v = JNull \<or> v = JUndefined then Inr ''unknown'' else js_String fin v) of
           Inl e \<Rightarrow> Inl e
         | Inr address \<Rightarrow>
             Inr (address,
                  case assetDecimals_override (pr_extra pr) of
                    Some n \<Rightarrow> n
                  | None \<Rightarrow> (case map_of kvs ''decimals'' of Some (JNumber n) \<Rightarrow> n | _ \<Rightarrow> Finite 6)))"
    using resolve_structured [of pr kvs v fin] by blast
  have l: "pr_asset pr = JString s \<and> trim s \<noteq> [] \<longrightarrow>
        resolveAssetInfo fin pr = Inr (s, override_or_default (pr_extra pr))"
    using resolve_plain [of pr s fin] by blast
  have u: "(\<forall>kvs. pr_asset pr = JObject kvs \<longrightarrow> map_of kvs ''address'' = None)
        \<and> (\<forall>s. pr_asset pr = JString s \<longrightarrow> trim s = []) \<longrightarrow>
        resolveAssetInfo fin pr = Inr (''unknown'', override_or_default (pr_extra pr))"
    using resolve_unknown [of pr fin] by blast
  have w: "assetDecimals_override (pr_extra pr) = Some n \<and> resolveAssetInfo fin pr = Inr (a, d)
        \<longrightarrow> d = n"
    using resolve_override [of pr n fin a d] by blast
  show ?thesis
    by (intro conjI s p o t r l u w ex)
qed

theorem resolveAssetInfo_precedence_witness:
  "resolveAssetInfo decimal_rendering
     \<lparr>pr_network = JString ''solana'',
      pr_asset = JObject [(''address'', JString ''A''), (''decimals'', JNumber (Finite 2))],
      pr_maxAmountRequired = JString ''1'', pr_resource = JUndefined, pr_extra = JUndefined\<rparr>
     = Inr (''A'', Finite 2)
   \<and> resolveAssetInfo decimal_rendering
     \<lparr>pr_network = JString ''solana'', pr_asset = JString ''So11'',
      pr_maxAmountRequired = JString ''1'', pr_resource = JUndefined,
      pr_extra = JObject [(''assetDecimals'', JNumber (Finite 9))]\<rparr> = Inr (''So11'', Finite 9)
   \<and> resolveAssetInfo decimal_rendering
     \<lparr>pr_network = JString ''solana'', pr_asset = JUndefined,
      pr_maxAmountRequired = JString ''1'', pr_resource = JUndefined, pr_extra = JUndefined\<rparr>
     = Inr (''unknown'', Finite 6)"
  using
    resolveAssetInfo_precedence [of
      "\<lparr>pr_network = JString ''solana'',
        pr_asset = JObject [(''address'', JString ''A''), (''decimals'', JNumber (Finite 2))],
        pr_maxAmountRequired = JString ''1'', pr_resource = JUndefined, pr_extra = JUndefined\<rparr>"
      "[(''address'', JString ''A''), (''decimals'', JNumber (Finite 2))]" "JString ''A''"
      decimal_rendering]
    resolveAssetInfo_precedence [of
      "\<lparr>pr_network = JString ''solana'', pr_asset = JString ''So11'',
        pr_maxAmountRequired = JString ''1'', pr_resource = JUndefined,
        pr_extra = JObject [(''assetDecimals'', JNumber (Finite 9))]\<rparr>"
      "[]" JNull decimal_rendering "[]" TypeError "''So11''"]
    resolveAssetInfo_precedence [of
      "\<lparr>pr_network = JString ''solana'', pr_asset = JUndefined,
        pr_maxAmountRequired = JString ''1'', pr_resource = JUndefined, pr_extra = JUndefined\<rparr>"
      "[]" JNull decimal_rendering]
  by (simp add: assetDecimals_override_def override_or_default_def trim_def is_whitespace_def)




section \<open>The signer cache\<close>

lemma getSigner_step:
  assumes "cache_consistent st"
  shows "cache_consistent (snd (getSigner n st))"
    and "signerCache (snd (getSigner n st)) n = Some (fst (getSigner n st))"
    and "set (createSigner_calls (snd (getSigner n st))) = insert n (set (createSigner_calls st))"
    and "signerCache st m = Some p \<Longrightarrow> signerCache (snd (getSigner n st)) m = Some p"
proof -
  show "cache_consistent (snd (getSigner n st))"
    using assms by (auto simp: cache_consistent_def getSigner_def Let_def split: option.splits)
  show "signerCache (snd (getSigner n st)) n = Some (fst (getSigner n st))"
    by (simp add: getSigner_def Let_def split: option.splits)
  show "set (createSigner_calls (snd (getSigner n st))) = insert n (set (createSigner_calls st))"
    using assms by (auto simp: cache_consistent_def getSigner_def Let_def split: option.splits)
  show "signerCache st m = Some p \<Longrightarrow> signerCache (snd (getSigner n st)) m = Some p"
    by (auto simp: getSigner_def Let_def split: option.splits)
qed

lemma getSigners_run:
  assumes "cache_consistent st"
  shows "cache_consistent (snd (getSigners ns st))
     \<and> set (createSigner_calls (snd (getSigners ns st))) = set ns \<union> set (createSigner_calls st)
     \<and> length (fst (getSigners ns st)) = length ns
     \<and> (\<forall>i<length ns. signerCache (snd (getSigners ns st)) (ns ! i) = Some (fst (getSigners ns st) ! i))
     \<and> (\<forall>m p. signerCache st m = Some p \<longrightarrow> signerCache (snd (getSigners ns st)) m = Some p)"
  using assms
proof (induction ns arbitrary: st)
  case Nil
  then show ?case by simp
next
  case (Cons n ns)
  let ?st1 = "snd (getSigner n st)"
  let ?p = "fst (getSigner n st)"
  note s = getSigner_step [OF Cons.prems, where n = n]
  note ih = Cons.IH [OF s(1)]
  have f: "fst (getSigners (n # ns) st) = ?p # fst (getSigners ns ?st1)"
    and r: "snd (getSigners (n # ns) st) = snd (getSigners ns ?st1)"
    by (simp_all add: Let_def split: prod.splits)
  have keep: "signerCache (snd (getSigners ns ?st1)) n = Some ?p"
    using ih s(2) by blast
  have idx: "signerCache (snd (getSigners ns ?st1)) ((n # ns) ! i) = Some ((?p # fst (getSigners ns ?st1)) ! i)"
    if "i < length (n # ns)" for i
  proof (cases i)
    case 0
    with keep show ?thesis by simp
  next
    case (Suc j)
    with that ih show ?thesis by simp
  qed
  have mono: "signerCache (snd (getSigners ns ?st1)) m = Some p" if "signerCache st m = Some p" for m p
    using ih s(4) [OF that] by blast
  show ?case unfolding f r using ih s(3) idx mono by auto
qed

lemma count_list_distinct: "distinct xs \<Longrightarrow> count_list xs n = (if n \<in> set xs then 1 else 0)"
  by (induction xs) auto

lemma fresh_consistent: "cache_consistent (fresh_process networks)"
  by (simp add: cache_consistent_def fresh_process_def)

section \<open>Claim on the signer registry\<close>

text \<open>
  C7. A call of \<open>getSigner\<close> runs to its end without suspension, so calls made
  concurrently are calls made one after the other, in some order. For every such
  sequence on a fresh process, \<open>createSigner\<close> is called exactly once for each
  network asked for and never for another; every call returns the promise the cache
  holds for its network, so two calls for one network return the same promise; from
  any consistent cache no network is created twice; and two calls for a network never
  seen before create one signer.
\<close>

theorem getSigner_creates_once:
  "count_list (createSigner_calls (snd (getSigners ns (fresh_process allowed)))) n
      = (if n \<in> set ns then 1 else 0)
   \<and> length (fst (getSigners ns (fresh_process allowed))) = length ns
   \<and> (\<forall>i<length ns.
         signerCache (snd (getSigners ns (fresh_process allowed))) (ns ! i)
           = Some (fst (getSigners ns (fresh_process allowed)) ! i))
   \<and> (\<forall>i<length ns. \<forall>j<length ns. ns ! i = ns ! j \<longrightarrow>
         fst (getSigners ns (fresh_process allowed)) ! i
           = fst (getSigners ns (fresh_process allowed)) ! j)
   \<and> (cache_consistent st \<longrightarrow>
         count_list (createSigner_calls (snd (getSigners ns st))) n \<le> 1)
   \<and> getSigners [network, network] (fresh_process allowed)
       = ([0, 0], (fresh_process allowed)\<lparr>signerCache := [network \<mapsto> 0],
                                          createSigner_calls := [network]\<rparr>)"
proof -
  let ?st = "snd (getSigners ns (fresh_process allowed))"
  let ?ps = "fst (getSigners ns (fresh_process allowed))"
  note run = getSigners_run [OF fresh_consistent, of ns allowed]
  have d: "distinct (createSigner_calls ?st)" and s: "set (createSigner_calls ?st) = set ns"
    using run by (simp_all add: cache_consistent_def fresh_process_def)
  have c: "count_list (createSigner_calls ?st) n = (if n \<in> set ns then 1 else 0)"
    using d s by (simp add: count_list_distinct)
  have l: "length ?ps = length ns" using run by simp
  have i: "\<forall>i<length ns. signerCache ?st (ns ! i) = Some (?ps ! i)" using run by blast
  have e: "\<forall>i<length ns. \<forall>j<length ns. ns ! i = ns ! j \<longrightarrow> ?ps ! i = ?ps ! j"
    using i by (metis option.inject)
  have g: "cache_consistent st \<longrightarrow> count_list (createSigner_calls (snd (getSigners ns st))) n \<le> 1"
  proof
    assume "cache_consistent st"
    then have "distinct (createSigner_calls (snd (getSigners ns st)))"
      using getSigners_run [of st ns] by (simp add: cache_consistent_def)
    then show "count_list (createSigner_calls (snd (getSigners ns st))) n \<le> 1"
      by (simp add: count_list_distinct)
  qed
  have t: "getSigners [network, network] (fresh_process allowed)
       = ([0, 0], (fresh_process allowed)\<lparr>signerCache := [network \<mapsto> 0],
                                          createSigner_calls := [network]\<rparr>)"
    by (simp add: getSigner_def fresh_process_def Let_def)
  from c l i e g t show ?thesis by blast
qed

theorem getSigner_creates_once_witness:
  "createSigner_calls (snd (getSigners [''solana'', ''solana-devnet'', ''solana'']
       (fresh_process {''solana'', ''solana-devnet''}))) = [''solana'', ''solana-devnet'']
   \<and> fst (getSigners [''solana'', ''solana-devnet'', ''solana'']
       (fresh_process {''solana'', ''solana-devnet''})) = [0, 1, 0]"
  using getSigner_creates_once [of "[''solana'', ''solana-devnet'', ''solana'']"
      "{''solana'', ''solana-devnet''}" "''solana''" "fresh_process {''solana'', ''solana-devnet''}"
      "''solana''"]
  by (simp add: getSigner_def fresh_process_def Let_def)


end
